theory Spec2Isabelle
  imports
    Complex_Main
    "HOL-Library.Word"
    "HOL-Library.Char_ord"
    "HOL-Library.List_Lexorder"
    "HOL-Library.Multiset"
    "HOL-Library.Sublist"
begin

section \<open>The RAG handler of the FAQ server\<close>

text \<open>
  A shallow embedding of the module that keeps the vector index of the FAQ corpus
  (class \<open>SimpleMemoryVectorDatabase\<close>, the corpus hasher, \<open>findChangedQuestions\<close>,
  \<open>initializeRAG\<close>, \<open>searchSimilarQuestions\<close>, \<open>refreshRAG\<close>).

  Conventions of the model.
  \<^item> A JavaScript string is a \<open>string\<close>; a character stands for one code unit.
  \<^item> A JavaScript number that holds a vector component or a score is a \<open>real\<close>.
    The source computes scores in double precision, which rounds, overflows and has a
    \<open>NaN\<close>; the sums, products, roots and quotient of \<open>cosineSimilarity\<close> are
    exact here, so the two agree only where the source does not round. No general
    statement below rests on the result of that arithmetic: the only computed score
    used is the 0 that \<open>cosineSimilarity\<close> returns for two vectors of different
    lengths, before any arithmetic.
  \<^item> An index or a count is a \<open>nat\<close>, exact at any size, where the source is exact
    below \<open>2^53\<close>; the \<open>topK\<close> arguments are \<open>int\<close>, because \<open>slice\<close> gives
    a negative end a meaning of its own.
  \<^item> An optional property (\<open>undefined\<close> when absent) is an \<open>option\<close>.
  \<^item> The files, the module-level variables and the console are fields of one record
    \<open>world\<close>, passed through every operation and returned updated.
  \<^item> The embedding framework (\<open>@llm-tools/embedjs\<close>), the embedding provider and
    the MD5 primitive of \<open>crypto\<close> are not code of this module; they are the fields
    of the record \<open>env\<close>, a parameter of every operation that calls them.
\<close>

subsection \<open>Strings\<close>

definition is_digit :: "char \<Rightarrow> bool" where
  "is_digit c = (c \<in> set ''0123456789'')"

definition digit_val :: "char \<Rightarrow> nat" where
  "digit_val c = of_char c - 48"

text \<open>\<open>parseInt\<close> on a non-empty string of decimal digits.\<close>

definition parseInt :: "string \<Rightarrow> nat" where
  "parseInt ds = foldl (\<lambda>acc c. 10 * acc + digit_val c) 0 ds"

text \<open>
  One attempt of the regular expression \<open>/\[INDEX:(\d+)\]/\<close> at the start of a string:
  the literal \<open>[INDEX:\<close>, then the longest run of digits, which must not be empty and
  must be followed by \<open>]\<close>. The result is the captured group.
\<close>

definition match_index_here :: "string \<Rightarrow> string option" where
  "match_index_here s =
     (if prefix ''[INDEX:'' s then
        (let rest = drop 7 s; ds = takeWhile is_digit rest; after = dropWhile is_digit rest
         in if ds \<noteq> [] \<and> after \<noteq> [] \<and> hd after = CHR '']'' then Some ds else None)
      else None)"

text \<open>\<open>s.match(/\[INDEX:(\d+)\]/)\<close>: the leftmost position where the attempt succeeds.\<close>

fun match_index :: "string \<Rightarrow> string option" where
  "match_index [] = match_index_here []"
| "match_index (c # cs) =
     (case match_index_here (c # cs) of Some ds \<Rightarrow> Some ds | None \<Rightarrow> match_index cs)"

text \<open>\<open>s.includes(t)\<close>.\<close>

fun includes_str :: "string \<Rightarrow> string \<Rightarrow> bool" where
  "includes_str [] t = (t = [])"
| "includes_str (c # cs) t = (prefix t (c # cs) \<or> includes_str cs t)"

text \<open>\<open>xs.join(sep)\<close> on an array of strings.\<close>

fun join :: "string \<Rightarrow> string list \<Rightarrow> string" where
  "join sep [] = []"
| "join sep [x] = x"
| "join sep (x # y # ys) = x @ sep @ join sep (y # ys)"

text \<open>The decimal rendering of an index inside a template literal.\<close>

fun show_nat :: "nat \<Rightarrow> string" where
  "show_nat n =
     (if n < 10 then [char_of (48 + n)]
      else show_nat (n div 10) @ [char_of (48 + n mod 10)])"

declare show_nat.simps [simp del]

text \<open>\<open>s || ''\<close> on an optional string.\<close>

definition or_empty :: "string option \<Rightarrow> string" where
  "or_empty s = (case s of None \<Rightarrow> [] | Some t \<Rightarrow> t)"

text \<open>The truth value JavaScript gives an optional string: absent and empty are falsy.\<close>

definition truthy :: "string option \<Rightarrow> bool" where
  "truthy s = (case s of None \<Rightarrow> False | Some t \<Rightarrow> t \<noteq> [])"

text \<open>
  \<open>xs.slice(0, k)\<close>: a negative end counts from the end of the array.
\<close>

definition slice0 :: "'a list \<Rightarrow> int \<Rightarrow> 'a list" where
  "slice0 xs k = (if k < 0 then take (nat (int (length xs) + k)) xs else take (nat k) xs)"

text \<open>
  \<open>xs.sort(cmp)\<close> with a comparator. The language fixes the result for a consistent
  comparator: sorted, and stable. The model inserts every element, from the last to the
  first, before the first element of the sorted rest that does not have to precede it.
\<close>

fun insert_by :: "('a \<Rightarrow> 'a \<Rightarrow> real) \<Rightarrow> 'a \<Rightarrow> 'a list \<Rightarrow> 'a list" where
  "insert_by cmp x [] = [x]"
| "insert_by cmp x (y # ys) =
     (if cmp x y \<le> 0 then x # y # ys else y # insert_by cmp x ys)"

definition sort_by :: "('a \<Rightarrow> 'a \<Rightarrow> real) \<Rightarrow> 'a list \<Rightarrow> 'a list" where
  "sort_by cmp xs = foldr (insert_by cmp) xs []"

subsection \<open>The vector store\<close>

record chunk_metadata =
  md_id :: "string option"
  md_index :: "nat option"

text \<open>
  A stored chunk. \<open>pageContent\<close> is only ever read as \<open>v.pageContent || ''\<close>, so an
  absent text is the empty string here.
\<close>

record chunk =
  pageContent :: string
  vector :: "real list"
  metadata :: "chunk_metadata option"

record scored =
  s_pageContent :: string
  s_metadata :: "chunk_metadata option"
  score :: real

record vector_db =
  vectors :: "chunk list"
  dimensions :: "nat option"

definition new_db :: vector_db where
  "new_db = \<lparr>vectors = [], dimensions = None\<rparr>"

definition init :: "nat \<Rightarrow> vector_db \<Rightarrow> vector_db" where
  "init dims db =
     (let existingVectors = length (vectors db); db1 = db\<lparr>dimensions := Some dims\<rparr>
      in if existingVectors = 0 then db1\<lparr>vectors := []\<rparr> else db1)"

definition insertChunks :: "chunk list \<Rightarrow> vector_db \<Rightarrow> nat \<times> vector_db" where
  "insertChunks chunks db = (length chunks, db\<lparr>vectors := vectors db @ chunks\<rparr>)"

definition hasVectors :: "vector_db \<Rightarrow> bool" where
  "hasVectors db = (length (vectors db) > 0)"

text \<open>The loop of \<open>cosineSimilarity\<close>, over the two vectors side by side.\<close>

fun cosine_loop :: "real list \<Rightarrow> real list \<Rightarrow> real \<times> real \<times> real \<Rightarrow> real \<times> real \<times> real" where
  "cosine_loop (a # as) (b # bs) (dotProduct, normA, normB) =
     cosine_loop as bs (dotProduct + a * b, normA + a * a, normB + b * b)"
| "cosine_loop _ _ acc = acc"

definition cosineSimilarity :: "real list \<Rightarrow> real list \<Rightarrow> real" where
  "cosineSimilarity vecA vecB =
     (if length vecA \<noteq> length vecB then 0
      else (case cosine_loop vecA vecB (0, 0, 0) of
              (dotProduct, normA, normB) \<Rightarrow>
                if normA = 0 \<or> normB = 0 then 0
                else dotProduct / (sqrt normA * sqrt normB)))"

definition score_chunk :: "real list \<Rightarrow> chunk \<Rightarrow> scored" where
  "score_chunk queryVector item =
     \<lparr>s_pageContent = pageContent item, s_metadata = metadata item,
      score = cosineSimilarity queryVector (vector item)\<rparr>"

definition similaritySearch :: "vector_db \<Rightarrow> real list \<Rightarrow> int \<Rightarrow> scored list" where
  "similaritySearch db queryVector topK =
     slice0 (sort_by (\<lambda>a b. score b - score a) (map (score_chunk queryVector) (vectors db))) topK"

text \<open>The predicate of the \<open>filter\<close> in \<open>deleteVectorsByIndex\<close>: true keeps the chunk.\<close>

definition keep_for_index :: "nat \<Rightarrow> chunk \<Rightarrow> bool" where
  "keep_for_index i v =
     (case match_index (pageContent v) of
        Some ds \<Rightarrow> parseInt ds \<noteq> i
      | None \<Rightarrow>
          (case metadata v of
             Some m \<Rightarrow> (case md_index m of Some j \<Rightarrow> j \<noteq> i | None \<Rightarrow> True)
           | None \<Rightarrow> True))"

definition deleteVectorsByIndex :: "nat \<Rightarrow> vector_db \<Rightarrow> nat \<times> vector_db" where
  "deleteVectorsByIndex i db =
     (let beforeLength = length (vectors db);
          db1 = db\<lparr>vectors := filter (keep_for_index i) (vectors db)\<rparr>
      in (beforeLength - length (vectors db1), db1))"

definition deleteKeys :: "string \<Rightarrow> vector_db \<Rightarrow> nat \<times> vector_db" where
  "deleteKeys pre db =
     (let beforeLength = length (vectors db);
          db1 = db\<lparr>vectors := filter (\<lambda>v. \<not> prefix pre
                   (case metadata v of None \<Rightarrow> [] | Some m \<Rightarrow> or_empty (md_id m))) (vectors db)\<rparr>
      in (beforeLength - length (vectors db1), db1))"

definition getVectorCountByIndex :: "nat \<Rightarrow> vector_db \<Rightarrow> nat" where
  "getVectorCountByIndex i db =
     length (filter (\<lambda>v.
        case match_index (pageContent v) of
          Some ds \<Rightarrow> parseInt ds = i
        | None \<Rightarrow>
            (case metadata v of
               Some m \<Rightarrow> (case md_index m of Some j \<Rightarrow> j = i | None \<Rightarrow> False)
             | None \<Rightarrow> False)) (vectors db))"

text \<open>
  The payload index of a chunk as far as it can be recovered: from the first
  \<open>[INDEX:n]\<close> tag of its text, and without a tag from \<open>metadata.index\<close>.
\<close>

definition payloadIndex :: "chunk \<Rightarrow> nat option" where
  "payloadIndex v =
     (case match_index (pageContent v) of
        Some ds \<Rightarrow> Some (parseInt ds)
      | None \<Rightarrow> (case metadata v of None \<Rightarrow> None | Some m \<Rightarrow> md_index m))"

text \<open>A run of delete calls, one per index, as the reconciler makes them.\<close>

fun delete_all :: "nat list \<Rightarrow> vector_db \<Rightarrow> vector_db" where
  "delete_all [] db = db"
| "delete_all (i # is) db = delete_all is (snd (deleteVectorsByIndex i db))"

subsection \<open>The corpus and its fingerprints\<close>

text \<open>A record of the corpus; \<open>qa_keywords\<close> is its property \<open>keywords\<close>.\<close>

record qa =
  question :: string
  answer :: string
  category :: "string option"
  audience :: "string option"
  qa_keywords :: "string list option"

text \<open>\<open>questionObj.keywords || []\<close>.\<close>

definition keywords_or_nil :: "qa \<Rightarrow> string list" where
  "keywords_or_nil q = (case qa_keywords q of None \<Rightarrow> [] | Some ks \<Rightarrow> ks)"

text \<open>
  \<open>JSON.stringify\<close> on a string: the quotation mark and the backslash are escaped, the
  control characters have their short escape or \<open>\u00XX\<close> in lowercase hexadecimal.
\<close>

definition hex_digit :: "nat \<Rightarrow> char" where
  "hex_digit n = ''0123456789abcdef'' ! (n mod 16)"

definition json_escape :: "char \<Rightarrow> string" where
  "json_escape c =
     (if c = CHR 0x22 then [CHR 0x5C, CHR 0x22]
      else if c = CHR 0x5C then [CHR 0x5C, CHR 0x5C]
      else if c = CHR 0x08 then [CHR 0x5C, CHR ''b'']
      else if c = CHR 0x0C then [CHR 0x5C, CHR ''f'']
      else if c = CHR 0x0A then [CHR 0x5C, CHR ''n'']
      else if c = CHR 0x0D then [CHR 0x5C, CHR ''r'']
      else if c = CHR 0x09 then [CHR 0x5C, CHR ''t'']
      else if (of_char c :: nat) < 32 then
        [CHR 0x5C, CHR ''u'', CHR ''0'', CHR ''0'',
         hex_digit (of_char c div 16), hex_digit (of_char c mod 16)]
      else [c])"

definition json_quote :: "string \<Rightarrow> string" where
  "json_quote s = CHR 0x22 # concat (map json_escape s) @ [CHR 0x22]"

text \<open>The three shapes an escaped character can have.\<close>

datatype esc_kind = Plain | Short | Unicode

definition escape_kind :: "char \<Rightarrow> esc_kind" where
  "escape_kind c = (if c \<in> set [CHR 0x22, CHR 0x5C, CHR 0x08, CHR 0x0C, CHR 0x0A, CHR 0x0D, CHR 0x09] then Short
             else if (of_char c :: nat) < 32 then Unicode else Plain)"

text \<open>\<open>JSON.stringify\<close> on an object whose properties are strings, in property order.\<close>

definition json_object :: "(string \<times> string) list \<Rightarrow> string" where
  "json_object props =
     ''{'' @ join '','' (map (\<lambda>(k, v). json_quote k @ '':'' @ json_quote v) props) @ ''}''"

text \<open>The text that \<open>calculateQuestionHash\<close> hashes.\<close>

definition canonical :: "qa \<Rightarrow> string" where
  "canonical q =
     json_object
       [(''question'', question q),
        (''answer'', answer q),
        (''category'', or_empty (category q)),
        (''audience'', or_empty (audience q)),
        (''keywords'', join '','' (sort (keywords_or_nil q)))]"

text \<open>\<open>digest('hex')\<close>: the 128 bits of the digest as 32 lowercase hexadecimal digits.\<close>

fun hex_of :: "nat \<Rightarrow> nat \<Rightarrow> string" where
  "hex_of 0 v = []"
| "hex_of (Suc n) v = hex_of n (v div 16) @ [hex_digit (v mod 16)]"

definition digest_hex :: "128 word \<Rightarrow> string" where
  "digest_hex d = hex_of 32 (unat d)"

subsection \<open>The world: files, module variables, console\<close>

datatype err = ReadError | TypeError | EmbedTransport | EmbedRejected

record cache_artifact =
  c_vectors :: "chunk list option"
  c_dimensions :: "nat option"
  savedAt :: nat

datatype cache_file = CacheMissing | CacheCorrupt | CacheGood cache_artifact

text \<open>
  What the operations do to the outside, in order: the three console messages of
  \<open>loadFromFile\<close>, the two of \<open>saveToFile\<close>, every call of \<open>fs.writeFile\<close> on one of
  the three artifacts, and every call of \<open>ragApp.addLoader\<close> with the index of its
  record and the text of its loader. The other console messages of the module are progress reports and are left out.
\<close>

datatype event =
    LogCacheLoaded nat
  | LogCacheNotFound
  | LogCacheError
  | LogCacheSaved nat
  | LogCacheSaveError
  | CacheWrite
  | LedgerWrite
  | DigestWrite
  | AddLoader nat string

record qa_metadata =
  m_index :: nat
  m_question :: string
  m_answer :: string
  m_category :: string
  m_audience :: string
  m_keywords :: "string list"

text \<open>
  \<open>questions_file\<close>: the raw text of the corpus file and what \<open>JSON.parse\<close> makes of
  it; \<open>None\<close> is a file that cannot be read, \<open>Some (raw, None)\<close> one that cannot be
  parsed. \<open>indices_hash_file\<close>: the parsed ledger, an object from index to digest,
  \<open>None\<close> when the file is missing or cannot be parsed. The \<open>writable\<close> flags say
  whether \<open>fs.writeFile\<close> on that file succeeds. \<open>ragApp\<close> is the application object
  together with the vector database it was built on.
\<close>

record world =
  questions_file :: "(string \<times> qa list option) option"
  cache_file :: cache_file
  indices_hash_file :: "(nat \<times> string) list option"
  hash_file :: "string option"
  cache_writable :: bool
  indices_hash_writable :: bool
  hash_writable :: bool
  now :: nat
  ragApp :: "vector_db option"
  questionsData :: "qa list option"
  isInitialized :: bool
  chunkMetadataMap :: "(nat \<times> qa_metadata) list"
  trace :: "event list"

text \<open>
  The collaborators: the MD5 primitive, the dimensionality the embedder declares to
  \<open>init\<close>, \<open>addLoader\<close> on a \<open>TextLoader\<close> of a text (the chunks it hands to
  \<open>insertChunks\<close>, or the error it throws), and \<open>ragApp.search\<close>.
\<close>

record env =
  md5 :: "string \<Rightarrow> 128 word"
  embedderDimensions :: nat
  addLoader :: "string \<Rightarrow> err + chunk list"
  ragSearch :: "vector_db \<Rightarrow> string \<Rightarrow> err + scored list"

definition log_event :: "event \<Rightarrow> world \<Rightarrow> world" where
  "log_event e w = w\<lparr>trace := trace w @ [e]\<rparr>"

definition loadFromFile :: "vector_db \<Rightarrow> world \<Rightarrow> bool \<times> vector_db \<times> world" where
  "loadFromFile db w =
     (case cache_file w of
        CacheGood cache \<Rightarrow>
          (let db1 = db\<lparr>vectors := (case c_vectors cache of None \<Rightarrow> [] | Some vs \<Rightarrow> vs),
                        dimensions := (case c_dimensions cache of
                                         None \<Rightarrow> None
                                       | Some d \<Rightarrow> if d = 0 then None else Some d)\<rparr>
           in (True, db1, log_event (LogCacheLoaded (length (vectors db1))) w))
      | CacheMissing \<Rightarrow> (False, db, log_event LogCacheNotFound w)
      | CacheCorrupt \<Rightarrow> (False, db, log_event LogCacheError w))"

definition saveToFile :: "vector_db \<Rightarrow> world \<Rightarrow> bool \<times> world" where
  "saveToFile db w =
     (let cache = \<lparr>c_vectors = Some (vectors db), c_dimensions = dimensions db, savedAt = now w\<rparr>;
          w1 = log_event CacheWrite w
      in if cache_writable w1
         then (True, log_event (LogCacheSaved (length (vectors db))) (w1\<lparr>cache_file := CacheGood cache\<rparr>))
         else (False, log_event LogCacheSaveError w1))"

definition calculateQuestionHash :: "env \<Rightarrow> qa \<Rightarrow> string" where
  "calculateQuestionHash env q = digest_hex (md5 env (canonical q))"

text \<open>\<open>calculateQuestionHash\<close> sorts the keyword array of its argument in place.\<close>

definition keywords_sorted :: "qa \<Rightarrow> qa" where
  "keywords_sorted q = q\<lparr>qa_keywords := map_option sort (qa_keywords q)\<rparr>"

definition calculateQuestionsHash :: "env \<Rightarrow> world \<Rightarrow> string option" where
  "calculateQuestionsHash env w =
     (case questions_file w of
        None \<Rightarrow> None
      | Some (raw, _) \<Rightarrow> Some (digest_hex (md5 env raw)))"

definition loadQuestions :: "world \<Rightarrow> (err + qa list) \<times> world" where
  "loadQuestions w =
     (case questions_file w of
        None \<Rightarrow> (Inl ReadError, w)
      | Some (raw, None) \<Rightarrow> (Inl ReadError, w)
      | Some (raw, Some qs) \<Rightarrow> (Inr qs, w\<lparr>questionsData := Some qs\<rparr>))"

definition calculateQuestionsIndicesHash :: "env \<Rightarrow> world \<Rightarrow> (nat \<times> string) list \<times> world" where
  "calculateQuestionsIndicesHash env w =
     (case loadQuestions w of
        (Inl e, w1) \<Rightarrow> ([], w1)
      | (Inr questions, w1) \<Rightarrow>
          (enumerate 0 (map (calculateQuestionHash env) questions),
           w1\<lparr>questionsData := Some (map keywords_sorted questions)\<rparr>))"

definition getStoredIndicesHash :: "world \<Rightarrow> (nat \<times> string) list" where
  "getStoredIndicesHash w = (case indices_hash_file w of None \<Rightarrow> [] | Some l \<Rightarrow> l)"

definition saveHash :: "string \<Rightarrow> world \<Rightarrow> world" where
  "saveHash h w =
     (let w1 = log_event DigestWrite w
      in if hash_writable w1 then w1\<lparr>hash_file := Some h\<rparr> else w1)"

definition saveIndicesHash :: "(nat \<times> string) list \<Rightarrow> world \<Rightarrow> world" where
  "saveIndicesHash indicesHash w =
     (let w1 = log_event LedgerWrite w
      in if indices_hash_writable w1 then w1\<lparr>indices_hash_file := Some indicesHash\<rparr> else w1)"

text \<open>\<open>Object.keys\<close> of a ledger: integer keys come out once each, ascending.\<close>

definition object_keys :: "(nat \<times> string) list \<Rightarrow> nat list" where
  "object_keys l = sort (remdups (map fst l))"

record changes =
  changed :: "nat list"
  newIndices :: "nat list"
  deletedIndices :: "nat list"
  allChanged :: "nat list"

definition findChangedQuestions :: "env \<Rightarrow> world \<Rightarrow> changes \<times> world" where
  "findChangedQuestions env w =
     (case calculateQuestionsIndicesHash env w of
        (currentIndicesHash, w1) \<Rightarrow>
          (let storedIndicesHash = getStoredIndicesHash w1;
               differing = filter (\<lambda>i. \<not> truthy (map_of storedIndicesHash i)
                                      \<or> map_of storedIndicesHash i \<noteq> map_of currentIndicesHash i)
                             (object_keys currentIndicesHash);
               ch = filter (\<lambda>i. truthy (map_of storedIndicesHash i)) differing;
               nw = filter (\<lambda>i. \<not> truthy (map_of storedIndicesHash i)) differing;
               del = filter (\<lambda>i. \<not> truthy (map_of currentIndicesHash i))
                       (object_keys storedIndicesHash)
           in (\<lparr>changed = ch, newIndices = nw, deletedIndices = del, allChanged = ch @ nw\<rparr>, w1)))"

definition createSearchableText :: "qa \<Rightarrow> string" where
  "createSearchableText q =
     join '' '' (filter (\<lambda>s. s \<noteq> [])
       ([question q] @ keywords_or_nil q @ [or_empty (category q), or_empty (audience q)]))"

definition textWithMetadata :: "nat \<Rightarrow> qa \<Rightarrow> string" where
  "textWithMetadata i q =
     ''[INDEX:'' @ show_nat i @ ''][QUESTION:'' @ question q @ ''][ANSWER:'' @ answer q
     @ ''][CATEGORY:'' @ or_empty (category q) @ ''][AUDIENCE:'' @ or_empty (audience q)
     @ ''][KEYWORDS:'' @ join '','' (keywords_or_nil q) @ '']'' @ [CHR 0x0A, CHR 0x0A]
     @ createSearchableText q"

definition make_metadata :: "nat \<Rightarrow> qa \<Rightarrow> qa_metadata" where
  "make_metadata i q =
     \<lparr>m_index = i, m_question = question q, m_answer = answer q,
      m_category = or_empty (category q), m_audience = or_empty (audience q),
      m_keywords = keywords_or_nil q\<rparr>"

text \<open>\<open>Map.prototype.set\<close>: an existing key keeps its place, a new key goes last.\<close>

fun map_set :: "nat \<Rightarrow> 'v \<Rightarrow> (nat \<times> 'v) list \<Rightarrow> (nat \<times> 'v) list" where
  "map_set k v [] = [(k, v)]"
| "map_set k v ((k', v') # rest) =
     (if k = k' then (k, v) # rest else (k', v') # map_set k v rest)"

subsection \<open>The reconciler\<close>

text \<open>
  The loop that stores the metadata of every record of \<open>questionsData\<close>; reading the
  length of a null \<open>questionsData\<close> throws.
\<close>

definition loadMetadata :: "world \<Rightarrow> err option \<times> world" where
  "loadMetadata w =
     (case questionsData w of
        None \<Rightarrow> (Some TypeError, w)
      | Some qs \<Rightarrow>
          (None, w\<lparr>chunkMetadataMap :=
                     fold (\<lambda>(i, q). map_set i (make_metadata i q)) (enumerate 0 qs)
                       (chunkMetadataMap w)\<rparr>))"

text \<open>
  The body of both embedding loops, for the record at index \<open>i\<close>: build the tagged text,
  store the metadata, hand the text to \<open>addLoader\<close>, which inserts the chunks it made
  into the vector database or throws. The body has no handler of its own.
\<close>

definition processQuestion :: "env \<Rightarrow> nat \<Rightarrow> world \<Rightarrow> err option \<times> world" where
  "processQuestion env i w =
     (case questionsData w of
        None \<Rightarrow> (Some TypeError, w)
      | Some qs \<Rightarrow>
          if length qs \<le> i then (Some TypeError, w)
          else
            (let q = qs ! i;
                 loaderText = textWithMetadata i q;
                 w1 = w\<lparr>chunkMetadataMap := map_set i (make_metadata i q) (chunkMetadataMap w)\<rparr>
             in case ragApp w1 of
                  None \<Rightarrow> (Some TypeError, w1)
                | Some db \<Rightarrow>
                    (let w2 = log_event (AddLoader i loaderText) w1
                     in case addLoader env loaderText of
                          Inl e \<Rightarrow> (Some e, w2)
                        | Inr chunks \<Rightarrow>
                            (None, w2\<lparr>ragApp := Some (snd (insertChunks chunks db))\<rparr>))))"

fun processQuestions :: "env \<Rightarrow> nat list \<Rightarrow> world \<Rightarrow> err option \<times> world" where
  "processQuestions env [] w = (None, w)"
| "processQuestions env (i # is) w =
     (case processQuestion env i w of
        (Some e, w1) \<Rightarrow> (Some e, w1)
      | (None, w1) \<Rightarrow> processQuestions env is w1)"

text \<open>Writing the ledger and the corpus digest, the end of every successful pass.\<close>

definition saveHashes :: "env \<Rightarrow> world \<Rightarrow> world" where
  "saveHashes env w =
     (case calculateQuestionsIndicesHash env w of
        (currentIndicesHash, w1) \<Rightarrow>
          (let w2 = saveIndicesHash currentIndicesHash w1
           in case calculateQuestionsHash env w2 of
                None \<Rightarrow> w2
              | Some currentHash \<Rightarrow> if currentHash \<noteq> [] then saveHash currentHash w2 else w2))"

definition saveCacheAndHashes :: "env \<Rightarrow> world \<Rightarrow> err option \<times> world" where
  "saveCacheAndHashes env w =
     (case ragApp w of
        None \<Rightarrow> (Some TypeError, w)
      | Some db \<Rightarrow>
          (let w1 = snd (saveToFile db w); w2 = saveHashes env w1
           in (None, w2\<lparr>isInitialized := True\<rparr>)))"

text \<open>The branch of \<open>initializeRAG\<close> taken when a cache was loaded and holds vectors.\<close>

definition incrementalUpdate :: "env \<Rightarrow> world \<Rightarrow> err option \<times> world" where
  "incrementalUpdate env w =
     (case findChangedQuestions env w of
        (chg, w1) \<Rightarrow>
          if length (allChanged chg) = 0 \<and> length (deletedIndices chg) = 0 then
            (case loadMetadata w1 of
               (Some e, w2) \<Rightarrow> (Some e, w2)
             | (None, w2) \<Rightarrow> (None, saveHashes env (w2\<lparr>isInitialized := True\<rparr>)))
          else
            (let w2 = w1\<lparr>ragApp := map_option (delete_all (deletedIndices chg)) (ragApp w1)\<rparr>;
                 w3 = w2\<lparr>ragApp := map_option (delete_all (changed chg)) (ragApp w2)\<rparr>;
                 indicesToProcess = sort (changed chg @ newIndices chg)
             in case processQuestions env indicesToProcess w3 of
                  (Some e, w4) \<Rightarrow> (Some e, w4)
                | (None, w4) \<Rightarrow>
                    (case loadMetadata w4 of
                       (Some e, w5) \<Rightarrow> (Some e, w5)
                     | (None, w5) \<Rightarrow> saveCacheAndHashes env w5)))"

text \<open>The branch taken otherwise: the application is built again and every record embedded.\<close>

definition fullRebuild :: "env \<Rightarrow> world \<Rightarrow> err option \<times> world" where
  "fullRebuild env w =
     (let w1 = w\<lparr>ragApp := map_option (init (embedderDimensions env)) (ragApp w)\<rparr>
      in case questionsData w1 of
           None \<Rightarrow> (Some TypeError, w1)
         | Some qs \<Rightarrow>
             (case processQuestions env [0..<length qs] w1 of
                (Some e, w2) \<Rightarrow> (Some e, w2)
              | (None, w2) \<Rightarrow> saveCacheAndHashes env w2))"

text \<open>
  \<open>initializeRAG\<close>. Building the application calls \<open>init\<close> on the vector database with
  the embedder's dimensionality. An error thrown anywhere is logged and thrown again: the
  result carries it, with the world as it was left.
\<close>

definition initializeRAG :: "env \<Rightarrow> world \<Rightarrow> err option \<times> world" where
  "initializeRAG env w =
     (if isInitialized w then (None, w)
      else
        (case loadQuestions w of
           (Inl e, w1) \<Rightarrow> (Some e, w1)
         | (Inr _, w1) \<Rightarrow>
             (case loadFromFile new_db w1 of
                (cacheLoaded, db1, w2) \<Rightarrow>
                  (let vectorCountBeforeBuild = length (vectors db1);
                       db2 = init (embedderDimensions env) db1;
                       vectorCountAfterBuild = length (vectors db2);
                       reload = (cacheLoaded \<and> vectorCountBeforeBuild > 0 \<and> vectorCountAfterBuild = 0);
                       db3 = (if reload then fst (snd (loadFromFile db2 w2)) else db2);
                       w3 = (if reload then snd (snd (loadFromFile db2 w2)) else w2);
                       w4 = w3\<lparr>ragApp := Some db3\<rparr>
                   in if cacheLoaded \<and> hasVectors db3 then incrementalUpdate env w4
                      else fullRebuild env w4))))"

definition refreshRAG :: "env \<Rightarrow> world \<Rightarrow> err option \<times> world" where
  "refreshRAG env w = initializeRAG env (w\<lparr>isInitialized := False\<rparr>)"

subsection \<open>The search API\<close>

record search_hit =
  h_index :: "nat option"
  h_question :: string
  h_answer :: string
  h_category :: string
  h_audience :: string
  h_keywords :: "string list"
  similarity :: real
  rank :: nat

definition unresolved_hit :: "nat option \<Rightarrow> real \<Rightarrow> nat \<Rightarrow> search_hit" where
  "unresolved_hit i s idx =
     \<lparr>h_index = i, h_question = [], h_answer = [], h_category = [], h_audience = [],
      h_keywords = [], similarity = s, rank = idx + 1\<rparr>"

text \<open>
  \<open>questionsData[index]\<close> and the assignments under \<open>if (originalQuestion)\<close>: an index
  outside the corpus gives \<open>undefined\<close>, and the fields keep their empty initial values.
\<close>

definition from_corpus :: "qa list \<Rightarrow> nat \<Rightarrow> real \<Rightarrow> nat \<Rightarrow> search_hit" where
  "from_corpus qs i s idx =
     (if i < length qs then
        (let originalQuestion = qs ! i
         in \<lparr>h_index = Some i, h_question = question originalQuestion,
             h_answer = answer originalQuestion,
             h_category = or_empty (category originalQuestion),
             h_audience = or_empty (audience originalQuestion),
             h_keywords = keywords_or_nil originalQuestion,
             similarity = s, rank = idx + 1\<rparr>)
      else unresolved_hit (Some i) s idx)"

text \<open>
  The callback of the \<open>map\<close> in \<open>searchSimilarQuestions\<close>, for the result at position
  \<open>idx\<close>. \<open>result.score || 0\<close> is the score itself. Indexing a null \<open>questionsData\<close>
  throws.
\<close>

definition convertResult ::
  "qa list option \<Rightarrow> (nat \<times> qa_metadata) list \<Rightarrow> scored \<Rightarrow> nat \<Rightarrow> err + search_hit" where
  "convertResult qd cmm result idx =
     (case match_index (s_pageContent result) of
        Some ds \<Rightarrow>
          (case qd of
             None \<Rightarrow> Inl TypeError
           | Some qs \<Rightarrow> Inr (from_corpus qs (parseInt ds) (score result) idx))
      | None \<Rightarrow>
          (case (case s_metadata result of None \<Rightarrow> None | Some m \<Rightarrow> md_index m) of
             Some i \<Rightarrow>
               (case qd of
                  None \<Rightarrow> Inl TypeError
                | Some qs \<Rightarrow> Inr (from_corpus qs i (score result) idx))
           | None \<Rightarrow>
               (case find (\<lambda>(key, meta). includes_str (s_pageContent result) (m_question meta)
                                        \<or> includes_str (s_pageContent result) (m_answer meta)) cmm of
                  Some (key, meta) \<Rightarrow>
                    Inr \<lparr>h_index = Some (m_index meta), h_question = m_question meta,
                         h_answer = m_answer meta, h_category = m_category meta,
                         h_audience = m_audience meta, h_keywords = m_keywords meta,
                         similarity = score result, rank = idx + 1\<rparr>
                | None \<Rightarrow> Inr (unresolved_hit None (score result) idx))))"

fun convertResults ::
  "qa list option \<Rightarrow> (nat \<times> qa_metadata) list \<Rightarrow> nat \<Rightarrow> scored list \<Rightarrow> err + search_hit list" where
  "convertResults qd cmm idx [] = Inr []"
| "convertResults qd cmm idx (r # rs) =
     (case convertResult qd cmm r idx of
        Inl e \<Rightarrow> Inl e
      | Inr h \<Rightarrow>
          (case convertResults qd cmm (idx + 1) rs of
             Inl e \<Rightarrow> Inl e
           | Inr hs \<Rightarrow> Inr (h # hs)))"

definition searchSimilarQuestions ::
  "env \<Rightarrow> string \<Rightarrow> int \<Rightarrow> world \<Rightarrow> (err + search_hit list) \<times> world" where
  "searchSimilarQuestions env userQuestion topK w =
     (case (if \<not> isInitialized w then initializeRAG env w else (None, w)) of
        (Some e, w1) \<Rightarrow> (Inl e, w1)
      | (None, w1) \<Rightarrow>
          (case ragApp w1 of
             None \<Rightarrow> (Inl TypeError, w1)
           | Some db \<Rightarrow>
               (case ragSearch env db userQuestion of
                  Inl e \<Rightarrow> (Inl e, w1)
                | Inr results \<Rightarrow>
                    (convertResults (questionsData w1) (chunkMetadataMap w1) 0
                       (slice0 results topK), w1))))"

text \<open>
  The payload index of a raw search result as far as it can be recovered: from the first
  \<open>[INDEX:n]\<close> tag of its text, and without a tag from \<open>metadata.index\<close>.
\<close>

definition hit_payloadIndex :: "scored \<Rightarrow> nat option" where
  "hit_payloadIndex r =
     (case match_index (s_pageContent r) of
        Some ds \<Rightarrow> Some (parseInt ds)
      | None \<Rightarrow> (case s_metadata r of None \<Rightarrow> None | Some m \<Rightarrow> md_index m))"

subsection \<open>Vocabulary of the properties\<close>

text \<open>
  The classifier's answer when nothing changed; the ledger of a corpus; the vectors a
  cache artifact holds (\<open>cache.vectors || []\<close>); the kinds of events; the writes of a
  trace; and what a run of embedding calls looks like: every call succeeded, except
  that the last one may have failed with the error the run ends with.
\<close>

definition no_changes :: changes where
  "no_changes = \<lparr>changed = [], newIndices = [], deletedIndices = [], allChanged = []\<rparr>"

definition current_ledger :: "env \<Rightarrow> qa list \<Rightarrow> (nat \<times> string) list" where
  "current_ledger env qs = enumerate 0 (map (calculateQuestionHash env) qs)"

definition embed_ok :: "env \<Rightarrow> err option \<Rightarrow> event list \<Rightarrow> bool" where
  "embed_ok env r evs =
     ((\<forall>ev \<in> set evs. \<exists>i t. ev = AddLoader i t)
      \<and> (\<forall>i t. AddLoader i t \<in> set evs \<longrightarrow>
             (\<exists>cs. addLoader env t = Inr cs)
             \<or> (\<exists>e. r = Some e \<and> addLoader env t = Inl e \<and> last evs = AddLoader i t))
      \<and> (r = None \<longrightarrow> (\<forall>i t. AddLoader i t \<in> set evs \<longrightarrow> (\<exists>cs. addLoader env t = Inr cs))))"

definition cache_vectors :: "cache_artifact \<Rightarrow> chunk list" where
  "cache_vectors c = (case c_vectors c of None \<Rightarrow> [] | Some vs \<Rightarrow> vs)"

definition is_load_log :: "event \<Rightarrow> bool" where
  "is_load_log ev = (case ev of LogCacheLoaded n \<Rightarrow> True | LogCacheNotFound \<Rightarrow> True
                      | LogCacheError \<Rightarrow> True | _ \<Rightarrow> False)"

definition is_write :: "event \<Rightarrow> bool" where
  "is_write ev = (ev = CacheWrite \<or> ev = LedgerWrite \<or> ev = DigestWrite)"

definition writes :: "world \<Rightarrow> event list" where
  "writes w = filter is_write (trace w)"

text \<open>Two worlds that differ at most in the cache file and in the trace.\<close>

definition same_but_cache_and_trace :: "world \<Rightarrow> world \<Rightarrow> bool" where
  "same_but_cache_and_trace w w' = (w' = w\<lparr>cache_file := cache_file w', trace := trace w'\<rparr>)"

subsection \<open>Example inputs\<close>

text \<open>
  A small corpus, a process that has just started on it with no artifact on disk, and
  collaborators that make one chunk per text and search by cosine similarity.
\<close>

definition rec0 :: qa where
  "rec0 = \<lparr>question = ''Q0'', answer = ''A0'', category = Some ''c'', audience = None,
            qa_keywords = Some [''k2'', ''k1'']\<rparr>"

definition rec1 :: qa where
  "rec1 = \<lparr>question = ''Q1'', answer = ''A1'', category = None, audience = Some ''all'',
            qa_keywords = None\<rparr>"

definition rec2 :: qa where
  "rec2 = \<lparr>question = ''Q2'', answer = ''A2'', category = None, audience = None,
            qa_keywords = Some []\<rparr>"

definition fresh_world :: "qa list \<Rightarrow> world" where
  "fresh_world qs =
     \<lparr>questions_file = Some (''raw corpus text'', Some qs), cache_file = CacheMissing,
      indices_hash_file = None, hash_file = None,
      cache_writable = True, indices_hash_writable = True, hash_writable = True,
      now = 0, ragApp = None, questionsData = None, isInitialized = False,
      chunkMetadataMap = [], trace = []\<rparr>"

definition env0 :: env where
  "env0 =
     \<lparr>md5 = (\<lambda>s. word_of_nat (length s)),
      embedderDimensions = 2,
      addLoader = (\<lambda>t. Inr [\<lparr>pageContent = t, vector = [1, 0], metadata = None\<rparr>]),
      ragSearch = (\<lambda>db q. Inr (similaritySearch db [1, 0] 30))\<rparr>"

definition tagged_chunk :: "string \<Rightarrow> real list \<Rightarrow> chunk" where
  "tagged_chunk t v = \<lparr>pageContent = t, vector = v, metadata = None\<rparr>"

text \<open>
  An initialised process whose store holds two chunks of record 0 and a chunk of a
  record 5 that the corpus no longer has; what the search returns there.
\<close>

definition search_db :: vector_db where
  "search_db =
     \<lparr>vectors = [tagged_chunk ''[INDEX:0] Q0, first chunk'' [1, 0],
                 tagged_chunk ''[INDEX:0] Q0, second chunk'' [3, 4],
                 tagged_chunk ''[INDEX:5] stale'' [0, 1]],
      dimensions = Some 2\<rparr>"

definition search_world :: world where
  "search_world =
     (fresh_world [rec0])
       \<lparr>isInitialized := True, questionsData := Some [rec0], ragApp := Some search_db\<rparr>"

definition search_raw :: "scored list" where
  "search_raw =
     [\<lparr>s_pageContent = ''[INDEX:0] Q0, first chunk'', s_metadata = None, score = 1\<rparr>,
      \<lparr>s_pageContent = ''[INDEX:0] Q0, second chunk'', s_metadata = None, score = 3 / 5\<rparr>,
      \<lparr>s_pageContent = ''[INDEX:5] stale'', s_metadata = None, score = 0\<rparr>]"

definition search_hits :: "search_hit list" where
  "search_hits =
     [\<lparr>h_index = Some 0, h_question = ''Q0'', h_answer = ''A0'', h_category = ''c'',
       h_audience = [], h_keywords = [''k2'', ''k1''], similarity = 1, rank = 1\<rparr>,
      \<lparr>h_index = Some 0, h_question = ''Q0'', h_answer = ''A0'', h_category = ''c'',
       h_audience = [], h_keywords = [''k2'', ''k1''], similarity = 3 / 5, rank = 2\<rparr>,
      \<lparr>h_index = Some 5, h_question = [], h_answer = [], h_category = [],
       h_audience = [], h_keywords = [], similarity = 0, rank = 3\<rparr>]"

text \<open>
  An embedder that fails on the record of index 1; the chunk of record 0; a process with
  a cache and a ledger that agree with the corpus; one whose cache holds a vector of
  another dimensionality; and one whose cache and ledger are stale, with the states it
  goes through in two passes.
\<close>

definition env_fail :: env where
  "env_fail = env0\<lparr>addLoader := (\<lambda>t. if prefix ''[INDEX:1]'' t then Inl EmbedTransport
                                      else addLoader env0 t)\<rparr>"

definition chunk0 :: chunk where
  "chunk0 = tagged_chunk (textWithMetadata 0 rec0) [1, 0]"


definition mismatch_world :: world where
  "mismatch_world =
     (fresh_world [rec0])
       \<lparr>cache_file := CacheGood \<lparr>c_vectors = Some [tagged_chunk ''[INDEX:0] Q0'' [1, 2, 3]],
                                 c_dimensions = Some 3, savedAt = 0\<rparr>,
        indices_hash_file := Some (current_ledger env0 [rec0])\<rparr>"

definition stale_world :: world where
  "stale_world =
     (fresh_world [rec0])
       \<lparr>cache_file := CacheGood \<lparr>c_vectors = Some [tagged_chunk ''[INDEX:7] Q7'' [1, 0]],
                                 c_dimensions = Some 2, savedAt = 0\<rparr>,
        indices_hash_file := Some [(0, calculateQuestionHash env0 rec0),
                                   (7, calculateQuestionHash env0 rec1)]\<rparr>"

definition stale_after_first :: world where
  "stale_after_first =
     stale_world
        \<lparr>questionsData := Some [keywords_sorted rec0],
         chunkMetadataMap := [(0, make_metadata 0 (keywords_sorted rec0))],
         ragApp := Some \<lparr>vectors = [], dimensions = Some 2\<rparr>,
         cache_file := CacheGood \<lparr>c_vectors = Some [], c_dimensions = Some 2, savedAt = 0\<rparr>,
         indices_hash_file := Some (current_ledger env0 [rec0]),
         hash_file := Some (digest_hex (md5 env0 ''raw corpus text'')),
         isInitialized := True,
         trace := [LogCacheLoaded 1, CacheWrite, LogCacheSaved 0, LedgerWrite, DigestWrite]\<rparr>"

definition stale_after_second :: world where
  "stale_after_second =
     stale_world
        \<lparr>questionsData := Some [keywords_sorted rec0],
         chunkMetadataMap := [(0, make_metadata 0 rec0)],
         ragApp := Some \<lparr>vectors = [chunk0], dimensions = Some 2\<rparr>,
         cache_file := CacheGood \<lparr>c_vectors = Some [chunk0], c_dimensions = Some 2, savedAt = 0\<rparr>,
         indices_hash_file := Some (current_ledger env0 [rec0]),
         hash_file := Some (digest_hex (md5 env0 ''raw corpus text'')),
         isInitialized := True,
         trace := [LogCacheLoaded 1, CacheWrite, LogCacheSaved 0, LedgerWrite, DigestWrite,
                   LogCacheLoaded 0, AddLoader 0 (textWithMetadata 0 rec0), CacheWrite,
                   LogCacheSaved 1, LedgerWrite, DigestWrite]\<rparr>"

text \<open>Two records that differ in their keywords only.\<close>

definition rec_comma :: qa where
  "rec_comma = \<lparr>question = ''Q'', answer = ''A'', category = None, audience = None,
                 qa_keywords = Some [''a,b'']\<rparr>"

definition rec_split :: qa where
  "rec_split = \<lparr>question = ''Q'', answer = ''A'', category = None, audience = None,
                 qa_keywords = Some [''b'', ''a'']\<rparr>"

text \<open>
  A store for the deletion by index: a chunk tagged with index 3, an untagged chunk whose
  metadata has index 3, a chunk tagged 30 whose metadata says 3, a chunk with no
  well-formed tag and no metadata index, and a chunk whose first tag is \<open>003\<close>.
\<close>

definition tag3 :: chunk where
  "tag3 = \<lparr>pageContent = ''[INDEX:3] Q3'', vector = [1, 0], metadata = None\<rparr>"

definition meta3 :: chunk where
  "meta3 = \<lparr>pageContent = ''no tag'', vector = [0, 1],
            metadata = Some \<lparr>md_id = None, md_index = Some 3\<rparr>\<rparr>"

definition tag30 :: chunk where
  "tag30 = \<lparr>pageContent = ''[INDEX:30] Q30'', vector = [1, 1],
            metadata = Some \<lparr>md_id = None, md_index = Some 3\<rparr>\<rparr>"

definition untagged :: chunk where
  "untagged = \<lparr>pageContent = ''[INDEX:] [INDEX:x3] 3'', vector = [2, 1],
               metadata = Some \<lparr>md_id = Some ''doc'', md_index = None\<rparr>\<rparr>"

definition tag003 :: chunk where
  "tag003 = \<lparr>pageContent = ''see [INDEX:003][INDEX:4]'', vector = [2, 2], metadata = None\<rparr>"

definition delete_db :: vector_db where
  "delete_db = \<lparr>vectors = [tag3, meta3, tag30, untagged, tag003], dimensions = Some 2\<rparr>"

section \<open>Properties\<close>

subsection \<open>Reading the index tag\<close>

text \<open>Decimal digits, and \<open>parseInt\<close> on the decimal rendering of a number.\<close>

lemma digit_chars:
  "char_of (48::nat) = CHR ''0''" "char_of (49::nat) = CHR ''1''" "char_of (50::nat) = CHR ''2''"
  "char_of (51::nat) = CHR ''3''" "char_of (52::nat) = CHR ''4''" "char_of (53::nat) = CHR ''5''"
  "char_of (54::nat) = CHR ''6''" "char_of (55::nat) = CHR ''7''" "char_of (56::nat) = CHR ''8''"
  "char_of (57::nat) = CHR ''9''"
  by (simp_all add: char_of_eq_iff)

lemma digit_char_of:
  fixes d :: nat
  assumes "d < 10"
  shows "is_digit (char_of (48 + d))"
proof -
  from assms consider "d = 0" | "d = 1" | "d = 2" | "d = 3" | "d = 4" | "d = 5" | "d = 6" | "d = 7"
    | "d = 8" | "d = 9" by atomize_elim arith
  then show ?thesis
    by cases (simp_all add: is_digit_def digit_chars)
qed

lemma digit_val_char_of: "d < 10 \<Longrightarrow> digit_val (char_of (48 + d)) = (d::nat)"
  by (simp add: digit_val_def)

lemma show_nat_digits: "show_nat n \<noteq> [] \<and> (\<forall>c \<in> set (show_nat n). is_digit c)"
proof (induction n rule: show_nat.induct)
  case (1 n)
  show ?case
  proof (cases "n < 10")
    case True
    then show ?thesis by (simp add: show_nat.simps [of n] digit_char_of)
  next
    case False
    with 1 have "show_nat (n div 10) \<noteq> [] \<and> (\<forall>c \<in> set (show_nat (n div 10)). is_digit c)" by simp
    moreover have "is_digit (char_of (48 + n mod 10))" by (rule digit_char_of) simp
    ultimately show ?thesis using False by (simp add: show_nat.simps [of n])
  qed
qed

lemma parseInt_snoc: "parseInt (ds @ [c]) = 10 * parseInt ds + digit_val c"
  by (simp add: parseInt_def)

lemma parseInt_show_nat: "parseInt (show_nat n) = n"
proof (induction n rule: show_nat.induct)
  case (1 n)
  show ?case
  proof (cases "n < 10")
    case True
    then show ?thesis by (simp add: show_nat.simps [of n] parseInt_def digit_val_char_of)
  next
    case False
    with 1 have "parseInt (show_nat (n div 10)) = n div 10" by simp
    then show ?thesis using False
      by (simp add: show_nat.simps [of n] parseInt_snoc digit_val_char_of)
  qed
qed

lemma parseInt_leading_zeros: "parseInt (replicate z (CHR ''0'') @ ds) = parseInt ds"
proof -
  have "foldl (\<lambda>acc c. 10 * acc + digit_val c) 0 (replicate z (CHR ''0'')) = 0"
    by (induction z) (simp_all add: digit_val_def)
  then show ?thesis by (simp add: parseInt_def)
qed

lemma not_digit_bracket: "\<not> is_digit (CHR '']'')"
  by (simp add: is_digit_def)

lemma match_index_here_tag:
  assumes "ds \<noteq> []" "\<forall>c \<in> set ds. is_digit c"
  shows "match_index_here (''[INDEX:'' @ ds @ '']'' @ post) = Some ds"
proof -
  have t: "takeWhile is_digit (ds @ CHR '']'' # post) = ds"
    using assms(2) by (subst takeWhile_append2) (auto simp: not_digit_bracket)
  have d: "dropWhile is_digit (ds @ CHR '']'' # post) = CHR '']'' # post"
    using assms(2) by (subst dropWhile_append2) (auto simp: not_digit_bracket)
  show ?thesis using assms(1) by (simp add: match_index_here_def t d not_digit_bracket)
qed

lemma match_index_here_Some:
  assumes "match_index_here s = Some ds"
  shows "\<exists>post. s = ''[INDEX:'' @ ds @ '']'' @ post \<and> ds \<noteq> [] \<and> (\<forall>c \<in> set ds. is_digit c)"
proof -
  from assms have p: "prefix ''[INDEX:'' s"
    by (simp add: match_index_here_def split: if_splits)
  then obtain rest where s: "s = ''[INDEX:'' @ rest" by (auto simp: prefix_def)
  have r: "drop 7 s = rest" by (simp add: s)
  from assms p r have ds: "ds = takeWhile is_digit rest" and ne: "ds \<noteq> []"
    and a: "dropWhile is_digit rest \<noteq> []" and h: "hd (dropWhile is_digit rest) = CHR '']''"
    by (simp_all add: match_index_here_def Let_def split: if_splits)
  from a h have "dropWhile is_digit rest = CHR '']'' # tl (dropWhile is_digit rest)"
    by (cases "dropWhile is_digit rest") simp_all
  then have "rest = ds @ '']'' @ tl (dropWhile is_digit rest)"
    using takeWhile_dropWhile_id [of is_digit rest] ds by simp
  moreover have "\<forall>c \<in> set ds. is_digit c" using ds by (auto dest: set_takeWhileD)
  ultimately show ?thesis using s ne by blast
qed

lemma match_index_Some:
  "match_index s = Some ds \<Longrightarrow>
   \<exists>pre post. s = pre @ ''[INDEX:'' @ ds @ '']'' @ post \<and> ds \<noteq> [] \<and> (\<forall>c \<in> set ds. is_digit c)"
proof (induction s)
  case Nil
  then show ?case by (simp add: match_index_here_def)
next
  case (Cons c cs)
  show ?case
  proof (cases "match_index_here (c # cs)")
    case None
    with Cons.prems have "match_index cs = Some ds" by simp
    from Cons.IH [OF this] obtain pre post where
      "cs = pre @ ''[INDEX:'' @ ds @ '']'' @ post" "ds \<noteq> []" "\<forall>c \<in> set ds. is_digit c" by blast
    then have "c # cs = (c # pre) @ ''[INDEX:'' @ ds @ '']'' @ post \<and> ds \<noteq> [] \<and> (\<forall>c \<in> set ds. is_digit c)"
      by simp
    then show ?thesis by blast
  next
    case (Some es)
    with Cons.prems have "es = ds" by simp
    with Some match_index_here_Some [of "c # cs" ds] obtain post where
      "c # cs = [] @ ''[INDEX:'' @ ds @ '']'' @ post \<and> ds \<noteq> [] \<and> (\<forall>c \<in> set ds. is_digit c)"
      by auto
    then show ?thesis by blast
  qed
qed

lemma match_index_leftmost:
  assumes "ds \<noteq> []" "\<forall>c \<in> set ds. is_digit c"
    and "\<forall>p es post'. pre @ ''[INDEX:'' @ ds @ '']'' @ post = p @ ''[INDEX:'' @ es @ '']'' @ post'
            \<and> es \<noteq> [] \<and> (\<forall>c \<in> set es. is_digit c) \<longrightarrow> length pre \<le> length p"
  shows "match_index (pre @ ''[INDEX:'' @ ds @ '']'' @ post) = Some ds"
  using assms(3)
proof (induction pre)
  case Nil
  show ?case using match_index_here_tag [OF assms(1,2), of post] by simp
next
  case (Cons c pre)
  let ?t = "''[INDEX:'' @ ds @ '']'' @ post"
  have none: "match_index_here ((c # pre) @ ?t) = None"
  proof (cases "match_index_here ((c # pre) @ ?t)")
    case None
    then show ?thesis .
  next
    case (Some es)
    from match_index_here_Some [OF this] obtain post' where
      "(c # pre) @ ?t = [] @ ''[INDEX:'' @ es @ '']'' @ post'" "es \<noteq> []" "\<forall>c \<in> set es. is_digit c"
      by auto
    with Cons.prems have "length (c # pre) \<le> length ([] :: string)" by blast
    then show ?thesis by simp
  qed
  have "\<forall>p es post'. pre @ ?t = p @ ''[INDEX:'' @ es @ '']'' @ post'
            \<and> es \<noteq> [] \<and> (\<forall>c \<in> set es. is_digit c) \<longrightarrow> length pre \<le> length p"
  proof (intro allI impI)
    fix p es post'
    assume a: "pre @ ?t = p @ ''[INDEX:'' @ es @ '']'' @ post'
            \<and> es \<noteq> [] \<and> (\<forall>c \<in> set es. is_digit c)"
    then have "(c # pre) @ ?t = (c # p) @ ''[INDEX:'' @ es @ '']'' @ post'" by simp
    with a Cons.prems have "length (c # pre) \<le> length (c # p)" by blast
    then show "length pre \<le> length p" by simp
  qed
  from Cons.IH [OF this] have "match_index (pre @ ?t) = Some ds" .
  moreover have "match_index ((c # pre) @ ?t) = match_index (pre @ ?t)"
    using none by simp
  ultimately show ?case by simp
qed

lemma first_bracket_leftmost:
  assumes "CHR ''['' \<notin> set pre"
  shows "\<forall>p es post'. pre @ ''[INDEX:'' @ ds @ '']'' @ post = p @ ''[INDEX:'' @ es @ '']'' @ post'
            \<and> es \<noteq> [] \<and> (\<forall>c \<in> set es. is_digit c) \<longrightarrow> length pre \<le> length p"
proof (intro allI impI)
  fix p es post'
  assume a: "pre @ ''[INDEX:'' @ ds @ '']'' @ post = p @ ''[INDEX:'' @ es @ '']'' @ post'
            \<and> es \<noteq> [] \<and> (\<forall>c \<in> set es. is_digit c)"
  show "length pre \<le> length p"
  proof (rule ccontr)
    assume "\<not> length pre \<le> length p"
    then have lt: "length p < length pre" by simp
    from a have "(pre @ ''[INDEX:'' @ ds @ '']'' @ post) ! length p
                   = (p @ ''[INDEX:'' @ es @ '']'' @ post') ! length p" by simp
    then have "pre ! length p = CHR ''[''" using lt by (simp add: nth_append)
    with lt assms show False by (metis nth_mem)
  qed
qed

lemma no_tag_without_bracket:
  "CHR ''['' \<notin> set s \<Longrightarrow>
   \<forall>pre ds post. s = pre @ ''[INDEX:'' @ ds @ '']'' @ post \<longrightarrow> ds = [] \<or> (\<exists>c \<in> set ds. \<not> is_digit c)"
  by auto

subsection \<open>Deleting by payload index\<close>

lemma keep_for_index_iff: "keep_for_index i v \<longleftrightarrow> payloadIndex v \<noteq> Some i"
  by (simp add: keep_for_index_def payloadIndex_def split: option.splits)

lemma vectors_delete_all:
  "vectors (delete_all is db) = filter (\<lambda>v. \<forall>i \<in> set is. payloadIndex v \<noteq> Some i) (vectors db)"
proof (induction "is" arbitrary: db)
  case Nil
  show ?case by simp
next
  case (Cons i "is")
  show ?case
    by (simp add: Cons.IH deleteVectorsByIndex_def Let_def keep_for_index_iff conj_commute)
qed

lemma count_removed:
  "length xs - length (filter P xs) = length (filter (\<lambda>x. \<not> P x) xs)"
  using sum_length_filter_compl [of P xs] by simp

text \<open>
  Claim C10. \<open>deleteVectorsByIndex i\<close> removes exactly the chunks whose payload index
  can be recovered and is \<open>i\<close>; it returns how many it removed; it leaves the
  dimensionality alone; and the chunks whose payload index cannot be recovered survive
  any run of such calls, in their order. The payload index is recovered as follows. A
  tag is \<open>[INDEX:\<close>, a non-empty run of decimal digits and \<open>]\<close>. A chunk whose text has
  a tag has the payload index its leftmost tag reads, whatever its metadata says; the
  digits are read in base ten, so the digits of \<open>n\<close> read \<open>n\<close>, also after leading zeros.
  A chunk whose text has no tag has the payload index of \<open>metadata.index\<close>, and none
  if that is absent.
\<close>

theorem deleteVectorsByIndex_exact:
  "vectors (snd (deleteVectorsByIndex i db)) = filter (\<lambda>v. payloadIndex v \<noteq> Some i) (vectors db)
   \<and> fst (deleteVectorsByIndex i db) = length (filter (\<lambda>v. payloadIndex v = Some i) (vectors db))
   \<and> dimensions (snd (deleteVectorsByIndex i db)) = dimensions db
   \<and> filter (\<lambda>v. payloadIndex v = None) (vectors (delete_all js db))
       = filter (\<lambda>v. payloadIndex v = None) (vectors db)
   \<and> (ds \<noteq> [] \<and> (\<forall>c \<in> set ds. is_digit c)
        \<and> (\<forall>p es post'. pre @ ''[INDEX:'' @ ds @ '']'' @ post = p @ ''[INDEX:'' @ es @ '']'' @ post'
               \<and> es \<noteq> [] \<and> (\<forall>c \<in> set es. is_digit c) \<longrightarrow> length pre \<le> length p) \<longrightarrow>
        payloadIndex (v\<lparr>pageContent := pre @ ''[INDEX:'' @ ds @ '']'' @ post\<rparr>) = Some (parseInt ds))
   \<and> parseInt (replicate z (CHR ''0'') @ show_nat n) = n
   \<and> ((\<forall>p es post'. pageContent u = p @ ''[INDEX:'' @ es @ '']'' @ post' \<longrightarrow>
          es = [] \<or> (\<exists>c \<in> set es. \<not> is_digit c)) \<longrightarrow>
        payloadIndex u = (case metadata u of None \<Rightarrow> None | Some m \<Rightarrow> md_index m))"
proof -
  have keep: "keep_for_index i = (\<lambda>v. payloadIndex v \<noteq> Some i)"
    by (rule ext) (rule keep_for_index_iff)
  have a: "vectors (snd (deleteVectorsByIndex i db))
             = filter (\<lambda>v. payloadIndex v \<noteq> Some i) (vectors db)"
    by (simp add: deleteVectorsByIndex_def Let_def keep)
  have b: "fst (deleteVectorsByIndex i db)
             = length (filter (\<lambda>v. payloadIndex v = Some i) (vectors db))"
    by (simp add: deleteVectorsByIndex_def Let_def keep count_removed)
  have c: "dimensions (snd (deleteVectorsByIndex i db)) = dimensions db"
    by (simp add: deleteVectorsByIndex_def Let_def)
  have d: "filter (\<lambda>v. payloadIndex v = None) (vectors (delete_all js db))
             = filter (\<lambda>v. payloadIndex v = None) (vectors db)"
    by (simp add: vectors_delete_all) (rule filter_cong, auto)
  have e: "ds \<noteq> [] \<and> (\<forall>c \<in> set ds. is_digit c)
        \<and> (\<forall>p es post'. pre @ ''[INDEX:'' @ ds @ '']'' @ post = p @ ''[INDEX:'' @ es @ '']'' @ post'
               \<and> es \<noteq> [] \<and> (\<forall>c \<in> set es. is_digit c) \<longrightarrow> length pre \<le> length p) \<longrightarrow>
        payloadIndex (v\<lparr>pageContent := pre @ ''[INDEX:'' @ ds @ '']'' @ post\<rparr>) = Some (parseInt ds)"
  proof
    assume h: "ds \<noteq> [] \<and> (\<forall>c \<in> set ds. is_digit c)
        \<and> (\<forall>p es post'. pre @ ''[INDEX:'' @ ds @ '']'' @ post = p @ ''[INDEX:'' @ es @ '']'' @ post'
               \<and> es \<noteq> [] \<and> (\<forall>c \<in> set es. is_digit c) \<longrightarrow> length pre \<le> length p)"
    then have "match_index (pre @ ''[INDEX:'' @ ds @ '']'' @ post) = Some ds"
      by (intro match_index_leftmost) blast+
    then show "payloadIndex (v\<lparr>pageContent := pre @ ''[INDEX:'' @ ds @ '']'' @ post\<rparr>)
                 = Some (parseInt ds)"
      by (simp add: payloadIndex_def)
  qed
  have p: "parseInt (replicate z (CHR ''0'') @ show_nat n) = n"
    by (simp add: parseInt_leading_zeros parseInt_show_nat)
  have f: "(\<forall>p es post'. pageContent u = p @ ''[INDEX:'' @ es @ '']'' @ post' \<longrightarrow>
          es = [] \<or> (\<exists>c \<in> set es. \<not> is_digit c)) \<longrightarrow>
        payloadIndex u = (case metadata u of None \<Rightarrow> None | Some m \<Rightarrow> md_index m)"
  proof
    assume no: "\<forall>p es post'. pageContent u = p @ ''[INDEX:'' @ es @ '']'' @ post' \<longrightarrow>
          es = [] \<or> (\<exists>c \<in> set es. \<not> is_digit c)"
    have "match_index (pageContent u) = None"
    proof (cases "match_index (pageContent u)")
      case None
      then show ?thesis .
    next
      case (Some es)
      from match_index_Some [OF this] no show ?thesis by blast
    qed
    then show "payloadIndex u = (case metadata u of None \<Rightarrow> None | Some m \<Rightarrow> md_index m)"
      by (simp add: payloadIndex_def)
  qed
  from a b c d e p f show ?thesis by blast
qed

text \<open>
  On the example store, deleting index 3 removes the chunk tagged 3, the untagged chunk
  with metadata index 3 and the chunk whose first tag is \<open>003\<close>; it keeps the chunk tagged
  30 (its metadata index 3 is not looked at) and the chunk without an index, which also
  survives the deletion of every index of the store.
\<close>

lemmas delete_defs =
  delete_db_def tag3_def meta3_def tag30_def untagged_def tag003_def
  deleteVectorsByIndex_def keep_for_index_def payloadIndex_def match_index_here_def
  is_digit_def parseInt_def digit_val_def Let_def

theorem deleteVectorsByIndex_exact_witness:
  "deleteVectorsByIndex 3 delete_db = (3, \<lparr>vectors = [tag30, untagged], dimensions = Some 2\<rparr>)
   \<and> map payloadIndex (vectors delete_db) = [Some 3, Some 3, Some 30, None, Some 3]
   \<and> vectors (delete_all [30, 3, 4] delete_db) = [untagged]
   \<and> CHR ''['' \<notin> set ''see ''
   \<and> ''003'' = replicate 2 (CHR ''0'') @ show_nat 3
   \<and> payloadIndex (tag003\<lparr>pageContent := ''see '' @ ''[INDEX:'' @ ''003'' @ '']'' @ ''[INDEX:4]''\<rparr>)
       = Some 3
   \<and> CHR ''['' \<notin> set (pageContent meta3)
   \<and> payloadIndex meta3 = Some 3"
proof -
  note t = deleteVectorsByIndex_exact [where i = 3 and db = delete_db and js = "[30, 3, 4]"
      and pre = "''see ''" and ds = "''003''" and post = "''[INDEX:4]''" and v = tag003
      and z = 2 and n = 3 and u = meta3]
  have p: "map payloadIndex (vectors delete_db) = [Some 3, Some 3, Some 30, None, Some 3]"
    by (simp add: delete_defs)
  have a: "deleteVectorsByIndex 3 delete_db = (3, \<lparr>vectors = [tag30, untagged], dimensions = Some 2\<rparr>)"
    using t p by (simp add: prod_eq_iff delete_db_def)
  have b: "vectors (delete_all [30, 3, 4] delete_db) = [untagged]"
    unfolding vectors_delete_all using p by (simp add: delete_db_def)
  have c: "CHR ''['' \<notin> set ''see ''" by simp
  have dg: "''003'' \<noteq> [] \<and> (\<forall>c \<in> set ''003''. is_digit c)" by (simp add: is_digit_def)
  have d: "payloadIndex (tag003\<lparr>pageContent := ''see '' @ ''[INDEX:'' @ ''003'' @ '']'' @ ''[INDEX:4]''\<rparr>)
       = Some (parseInt ''003'')"
    using t dg first_bracket_leftmost [OF c, of "''003''" "''[INDEX:4]''"] by blast
  have r: "parseInt (replicate 2 (CHR ''0'') @ show_nat 3) = 3" using t by blast
  have s: "''003'' = replicate 2 (CHR ''0'') @ show_nat 3"
    by (simp add: show_nat.simps digit_chars numeral_2_eq_2)
  have d3: "payloadIndex (tag003\<lparr>pageContent := ''see '' @ ''[INDEX:'' @ ''003'' @ '']'' @ ''[INDEX:4]''\<rparr>)
       = Some 3"
    using d r unfolding s [symmetric] by simp
  have e0: "CHR ''['' \<notin> set (pageContent meta3)" by (simp add: meta3_def)
  have e: "\<forall>pre ds post. pageContent meta3 = pre @ ''[INDEX:'' @ ds @ '']'' @ post \<longrightarrow>
          ds = [] \<or> (\<exists>c \<in> set ds. \<not> is_digit c)"
    by (rule no_tag_without_bracket) (rule e0)
  have f: "payloadIndex meta3 = Some 3"
    using t e by (simp add: meta3_def)
  from a p b c s d3 e0 f show ?thesis by blast
qed

subsection \<open>Cosine search\<close>

text \<open>Two vectors of different lengths score 0, before any arithmetic.\<close>

lemma cosineSimilarity_mismatch: "length q \<noteq> length v \<Longrightarrow> cosineSimilarity q v = 0"
  by (simp add: cosineSimilarity_def)

text \<open>
  The sort of \<open>similaritySearch\<close>, on any list of scored results: a rearrangement of
  the list, in descending score order.
\<close>

lemma mset_insert_by: "mset (insert_by cmp x ys) = add_mset x (mset ys)"
  by (induction ys) simp_all

lemma mset_sort_by: "mset (sort_by cmp xs) = mset xs"
  by (induction xs) (simp_all add: sort_by_def mset_insert_by)

lemma length_sort_by: "length (sort_by cmp xs) = length xs"
  using arg_cong [OF mset_sort_by, of size cmp xs] by simp

lemma set_insert_by: "set (insert_by cmp x ys) = insert x (set ys)"
  by (induction ys) auto

lemma sorted_insert_by_score:
  "sorted_wrt (\<lambda>a b. score b \<le> score a) ys \<Longrightarrow>
   sorted_wrt (\<lambda>a b. score b \<le> score a) (insert_by (\<lambda>a b. score b - score a) x ys)"
  by (induction ys) (auto simp: set_insert_by)

lemma sorted_sort_by_score:
  "sorted_wrt (\<lambda>a b. score b \<le> score a) (sort_by (\<lambda>a b. score b - score a) xs)"
  by (induction xs) (simp_all add: sort_by_def sorted_insert_by_score)

text \<open>
  An element is only moved past elements of strictly higher score, so the elements of
  one score keep their order.
\<close>

lemma filter_insert_by_score:
  "filter (\<lambda>r. score r = s) (insert_by (\<lambda>a b. score b - score a) x ys) =
     (if score x = s then x # filter (\<lambda>r. score r = s) ys else filter (\<lambda>r. score r = s) ys)"
  by (induction ys) auto

lemma stable_sort_by_score:
  "filter (\<lambda>r. score r = s) (sort_by (\<lambda>a b. score b - score a) xs) = filter (\<lambda>r. score r = s) xs"
  by (induction xs) (simp_all add: sort_by_def filter_insert_by_score)

lemma sqrt_25: "sqrt 25 = 5"
  using real_sqrt_abs2 [of 5] by simp

subsection \<open>The record fingerprint\<close>

lemma length_hex_of: "length (hex_of n v) = n"
  by (induction n arbitrary: v) simp_all

lemma hex_digit_in: "hex_digit n \<in> set ''0123456789abcdef''"
proof -
  have "n mod 16 < length ''0123456789abcdef''" by simp
  then show ?thesis unfolding hex_digit_def by (rule nth_mem)
qed

lemma set_hex_of: "set (hex_of n v) \<subseteq> set ''0123456789abcdef''"
proof (induction n arbitrary: v)
  case 0
  show ?case by simp
next
  case (Suc n)
  have "hex_digit (v mod 16) \<in> set ''0123456789abcdef''" by (rule hex_digit_in)
  with Suc [of "v div 16"] show ?case by simp
qed

lemma calculateQuestionHash_length: "length (calculateQuestionHash env q) = 32"
  by (simp add: calculateQuestionHash_def digest_hex_def length_hex_of)

lemma calculateQuestionHash_nonempty: "calculateQuestionHash env q \<noteq> []"
  using calculateQuestionHash_length [of env q] by auto

lemma sort_mset_cong: "mset xs = mset ys \<Longrightarrow> sort xs = sort ys"
  by (metis mset_sort sorted_sort properties_for_sort)

lemma split_at_sep:
  assumes "c \<notin> set x" "c \<notin> set y" "x @ c # a = y @ c # b"
  shows "x = y \<and> a = b"
proof -
  have "takeWhile (\<lambda>d. d \<noteq> c) (x @ c # a) = x" using assms(1) by (subst takeWhile_append2) auto
  moreover have "takeWhile (\<lambda>d. d \<noteq> c) (y @ c # b) = y" using assms(2) by (subst takeWhile_append2) auto
  ultimately have "x = y" using assms(3) by simp
  with assms(3) show ?thesis by simp
qed

lemma join_nonempty: "xs \<noteq> [] \<Longrightarrow> \<forall>k \<in> set xs. k \<noteq> [] \<Longrightarrow> join sep xs \<noteq> []"
  by (induction sep xs rule: join.induct) auto

lemma join_comma_inj:
  assumes "\<forall>k \<in> set xs. k \<noteq> [] \<and> CHR '','' \<notin> set k"
      and "\<forall>k \<in> set ys. k \<noteq> [] \<and> CHR '','' \<notin> set k"
      and "join '','' xs = join '','' ys"
  shows "xs = ys"
  using assms
proof (induction "'',''" xs arbitrary: ys rule: join.induct)
  case 1
  then show ?case using join_nonempty [of ys "'',''"] by (cases ys) auto
next
  case (2 x)
  show ?case
  proof (cases ys)
    case Nil
    with 2 show ?thesis by simp
  next
    case (Cons y ys')
    show ?thesis
    proof (cases ys')
      case Nil
      with Cons 2 show ?thesis by simp
    next
      case (Cons y2 ys2)
      with \<open>ys = y # ys'\<close> 2 have "x = y @ '','' @ join '','' (y2 # ys2)" by simp
      then have "CHR '','' \<in> set x" by simp
      with 2 show ?thesis by simp
    qed
  qed
next
  case (3 x x2 xs)
  show ?case
  proof (cases ys)
    case Nil
    with 3 show ?thesis by simp
  next
    case (Cons y ys')
    show ?thesis
    proof (cases ys')
      case Nil
      with Cons 3 have "y = x @ '','' @ join '','' (x2 # xs)" by simp
      then have "CHR '','' \<in> set y" by simp
      with 3 Cons show ?thesis by simp
    next
      case (Cons y2 ys2)
      with \<open>ys = y # ys'\<close> 3 have eq: "x @ CHR '','' # join '','' (x2 # xs) = y @ CHR '','' # join '','' (y2 # ys2)"
        by simp
      have "x = y \<and> join '','' (x2 # xs) = join '','' (y2 # ys2)"
        using 3(2,3) \<open>ys = y # ys'\<close> Cons by (intro split_at_sep [OF _ _ eq]) auto
      moreover then have "x2 # xs = y2 # ys2"
        using 3(2,3) \<open>ys = y # ys'\<close> Cons by (intro 3(1)) auto
      ultimately show ?thesis using \<open>ys = y # ys'\<close> Cons by simp
    qed
  qed
qed

lemma hex_digit_inj: "m < 16 \<Longrightarrow> n < 16 \<Longrightarrow> hex_digit m = hex_digit n \<Longrightarrow> m = n"
proof -
  assume a: "m < 16" "n < 16" "hex_digit m = hex_digit n"
  have d: "distinct ''0123456789abcdef''" by simp
  have "''0123456789abcdef'' ! m = ''0123456789abcdef'' ! n" using a by (simp add: hex_digit_def)
  moreover have "m < length ''0123456789abcdef''" "n < length ''0123456789abcdef''" using a by simp_all
  ultimately show "m = n" using d nth_eq_iff_index_eq by blast
qed

lemma of_char_eqI: "(of_char c :: nat) = of_char c' \<Longrightarrow> c = c'"
  by simp

lemma low_char_eq:
  assumes "(of_char c :: nat) < 32" "(of_char c' :: nat) < 32"
    "hex_digit (of_char c div 16) = hex_digit (of_char c' div 16)"
    "hex_digit (of_char c mod 16) = hex_digit (of_char c' mod 16)"
  shows "c = c'"
proof -
  let ?m = "of_char c :: nat" and ?n = "of_char c' :: nat"
  have "?m div 16 = ?n div 16" using assms by (intro hex_digit_inj) auto
  moreover have "?m mod 16 = ?n mod 16" using assms by (intro hex_digit_inj) auto
  ultimately have "?m = ?n" by (metis div_mult_mod_eq)
  then show ?thesis by simp
qed


lemma esc_plain: "escape_kind c = Plain \<Longrightarrow> json_escape c = [c] \<and> c \<noteq> CHR 0x5C \<and> c \<noteq> CHR 0x22"
  by (auto simp: escape_kind_def json_escape_def split: if_splits)

lemma esc_unicode: "escape_kind c = Unicode \<Longrightarrow> (of_char c :: nat) < 32 \<and> json_escape c = [CHR 0x5C, CHR ''u'', CHR ''0'', CHR ''0'',
         hex_digit (of_char c div 16), hex_digit (of_char c mod 16)]"
  by (auto simp: escape_kind_def json_escape_def split: if_splits)

lemma esc_short: "escape_kind c = Short \<Longrightarrow> \<exists>x. json_escape c = [CHR 0x5C, x] \<and> x \<noteq> CHR ''u''"
  by (auto simp: escape_kind_def json_escape_def split: if_splits)

lemma esc_short_inj: "escape_kind c = Short \<Longrightarrow> escape_kind c' = Short \<Longrightarrow> json_escape c @ r = json_escape c' @ r' \<Longrightarrow> c = c' \<and> r = r'"
  by (auto simp: escape_kind_def json_escape_def split: if_splits)

lemma json_escape_prefix_free:
  assumes "json_escape c @ r = json_escape c' @ r'"
  shows "c = c' \<and> r = r'"
proof (cases "escape_kind c"; cases "escape_kind c'")
  assume "escape_kind c = Plain" "escape_kind c' = Plain"
  then show ?thesis using assms esc_plain by auto
next
  assume "escape_kind c = Plain" "escape_kind c' = Short"
  then show ?thesis using assms esc_plain [of c] esc_short [of c'] by auto
next
  assume "escape_kind c = Plain" "escape_kind c' = Unicode"
  then show ?thesis using assms esc_plain [of c] esc_unicode [of c'] by auto
next
  assume "escape_kind c = Short" "escape_kind c' = Plain"
  then show ?thesis using assms esc_plain [of c'] esc_short [of c] by auto
next
  assume "escape_kind c = Short" "escape_kind c' = Short"
  then show ?thesis using assms esc_short_inj by blast
next
  assume "escape_kind c = Short" "escape_kind c' = Unicode"
  then show ?thesis using assms esc_short [of c] esc_unicode [of c'] by auto
next
  assume "escape_kind c = Unicode" "escape_kind c' = Plain"
  then show ?thesis using assms esc_plain [of c'] esc_unicode [of c] by auto
next
  assume "escape_kind c = Unicode" "escape_kind c' = Short"
  then show ?thesis using assms esc_short [of c'] esc_unicode [of c] by auto
next
  assume k: "escape_kind c = Unicode" "escape_kind c' = Unicode"
  then have "c = c'" using assms esc_unicode [of c] esc_unicode [of c'] low_char_eq [of c c'] by simp
  then show ?thesis using assms by simp
qed

lemma json_escape_not_quote: "json_escape c @ r \<noteq> CHR 0x22 # r'"
  by (cases "escape_kind c") (use esc_plain [of c] esc_short [of c] esc_unicode [of c] in auto)

lemma escaped_delimited:
  "concat (map json_escape s) @ CHR 0x22 # r = concat (map json_escape s') @ CHR 0x22 # r'
   \<Longrightarrow> s = s' \<and> r = r'"
proof (induction s arbitrary: s')
  case Nil
  show ?case
  proof (cases s')
    case Nil
    with Nil.prems show ?thesis by simp
  next
    case (Cons c' t)
    with Nil.prems have "json_escape c' @ (concat (map json_escape t) @ CHR 0x22 # r') = CHR 0x22 # r"
      by simp
    with json_escape_not_quote show ?thesis by blast
  qed
next
  case (Cons c s)
  show ?case
  proof (cases s')
    case Nil
    with Cons.prems have "json_escape c @ (concat (map json_escape s) @ CHR 0x22 # r) = CHR 0x22 # r'"
      by simp
    with json_escape_not_quote show ?thesis by blast
  next
    case (Cons c' t)
    with Cons.prems have "json_escape c @ (concat (map json_escape s) @ CHR 0x22 # r)
        = json_escape c' @ (concat (map json_escape t) @ CHR 0x22 # r')" by simp
    then have "c = c'" and "concat (map json_escape s) @ CHR 0x22 # r = concat (map json_escape t) @ CHR 0x22 # r'"
      using json_escape_prefix_free by blast+
    with Cons.IH [of t] \<open>s' = c' # t\<close> show ?thesis by simp
  qed
qed

lemma json_quote_delimited: "json_quote s @ r = json_quote s' @ r' \<Longrightarrow> s = s' \<and> r = r'"
  using escaped_delimited [of s r s' r'] by (simp add: json_quote_def)

lemma canonical_shape:
  "canonical q = ''{'' @ json_quote ''question'' @ '':'' @ json_quote (question q)
     @ '','' @ json_quote ''answer'' @ '':'' @ json_quote (answer q)
     @ '','' @ json_quote ''category'' @ '':'' @ json_quote (or_empty (category q))
     @ '','' @ json_quote ''audience'' @ '':'' @ json_quote (or_empty (audience q))
     @ '','' @ json_quote ''keywords'' @ '':'' @ json_quote (join '','' (sort (keywords_or_nil q))) @ ''}''"
  by (simp add: canonical_def json_object_def)

lemma canonical_inj:
  assumes "canonical q = canonical q'"
  shows "question q = question q' \<and> answer q = answer q'
     \<and> or_empty (category q) = or_empty (category q') \<and> or_empty (audience q) = or_empty (audience q')
     \<and> join '','' (sort (keywords_or_nil q)) = join '','' (sort (keywords_or_nil q'))"
proof -
  from assms have e1: "json_quote (question q) @ ('','' @ json_quote ''answer'' @ '':'' @ json_quote (answer q)
     @ '','' @ json_quote ''category'' @ '':'' @ json_quote (or_empty (category q))
     @ '','' @ json_quote ''audience'' @ '':'' @ json_quote (or_empty (audience q))
     @ '','' @ json_quote ''keywords'' @ '':'' @ json_quote (join '','' (sort (keywords_or_nil q))) @ ''}'')
    = json_quote (question q') @ ('','' @ json_quote ''answer'' @ '':'' @ json_quote (answer q')
     @ '','' @ json_quote ''category'' @ '':'' @ json_quote (or_empty (category q'))
     @ '','' @ json_quote ''audience'' @ '':'' @ json_quote (or_empty (audience q'))
     @ '','' @ json_quote ''keywords'' @ '':'' @ json_quote (join '','' (sort (keywords_or_nil q'))) @ ''}'')"
    unfolding canonical_shape by simp
  note s1 = json_quote_delimited [OF e1]
  from s1 have e2: "json_quote (answer q) @ ('','' @ json_quote ''category'' @ '':'' @ json_quote (or_empty (category q))
     @ '','' @ json_quote ''audience'' @ '':'' @ json_quote (or_empty (audience q))
     @ '','' @ json_quote ''keywords'' @ '':'' @ json_quote (join '','' (sort (keywords_or_nil q))) @ ''}'')
    = json_quote (answer q') @ ('','' @ json_quote ''category'' @ '':'' @ json_quote (or_empty (category q'))
     @ '','' @ json_quote ''audience'' @ '':'' @ json_quote (or_empty (audience q'))
     @ '','' @ json_quote ''keywords'' @ '':'' @ json_quote (join '','' (sort (keywords_or_nil q'))) @ ''}'')"
    by simp
  note s2 = json_quote_delimited [OF e2]
  from s2 have e3: "json_quote (or_empty (category q))
     @ ('','' @ json_quote ''audience'' @ '':'' @ json_quote (or_empty (audience q))
     @ '','' @ json_quote ''keywords'' @ '':'' @ json_quote (join '','' (sort (keywords_or_nil q))) @ ''}'')
    = json_quote (or_empty (category q'))
     @ ('','' @ json_quote ''audience'' @ '':'' @ json_quote (or_empty (audience q'))
     @ '','' @ json_quote ''keywords'' @ '':'' @ json_quote (join '','' (sort (keywords_or_nil q'))) @ ''}'')"
    by simp
  note s3 = json_quote_delimited [OF e3]
  from s3 have e4: "json_quote (or_empty (audience q))
     @ ('','' @ json_quote ''keywords'' @ '':'' @ json_quote (join '','' (sort (keywords_or_nil q))) @ ''}'')
    = json_quote (or_empty (audience q'))
     @ ('','' @ json_quote ''keywords'' @ '':'' @ json_quote (join '','' (sort (keywords_or_nil q'))) @ ''}'')"
    by simp
  note s4 = json_quote_delimited [OF e4]
  from s4 have e5: "json_quote (join '','' (sort (keywords_or_nil q))) @ ''}''
    = json_quote (join '','' (sort (keywords_or_nil q'))) @ ''}''"
    by simp
  note s5 = json_quote_delimited [OF e5]
  from s1 s2 s3 s4 s5 show ?thesis by blast
qed


text \<open>
  Claim C5, as amended. The fingerprint is the digest of the canonical text as 32
  lowercase hexadecimal digits, and it does not depend on the order of the keywords.
  For records whose keywords are non-empty and hold no comma, two canonical texts are
  equal exactly when the records agree on question, answer, category and audience (an
  absent one read as empty) and on the keywords as a multiset.
\<close>

theorem calculateQuestionHash_fingerprint:
  "(mset ks = mset ks' \<longrightarrow>
      calculateQuestionHash env (q\<lparr>qa_keywords := Some ks\<rparr>)
        = calculateQuestionHash env (q\<lparr>qa_keywords := Some ks'\<rparr>))
   \<and> calculateQuestionHash env q = digest_hex (md5 env (canonical q))
   \<and> length (calculateQuestionHash env q) = 32
   \<and> set (calculateQuestionHash env q) \<subseteq> set ''0123456789abcdef''
   \<and> ((\<forall>k \<in> set (keywords_or_nil q) \<union> set (keywords_or_nil q'). k \<noteq> [] \<and> CHR '','' \<notin> set k) \<longrightarrow>
        (canonical q = canonical q' \<longleftrightarrow>
           question q = question q' \<and> answer q = answer q'
           \<and> or_empty (category q) = or_empty (category q')
           \<and> or_empty (audience q) = or_empty (audience q')
           \<and> mset (keywords_or_nil q) = mset (keywords_or_nil q')))"
proof -
  have perm: "mset ks = mset ks' \<longrightarrow>
      calculateQuestionHash env (q\<lparr>qa_keywords := Some ks\<rparr>)
        = calculateQuestionHash env (q\<lparr>qa_keywords := Some ks'\<rparr>)"
    by (auto simp: calculateQuestionHash_def canonical_def keywords_or_nil_def dest: sort_mset_cong)
  have fmt: "set (calculateQuestionHash env q) \<subseteq> set ''0123456789abcdef''"
    unfolding calculateQuestionHash_def digest_hex_def by (rule set_hex_of)
  have sens: "canonical q = canonical q' \<longleftrightarrow>
           question q = question q' \<and> answer q = answer q'
           \<and> or_empty (category q) = or_empty (category q')
           \<and> or_empty (audience q) = or_empty (audience q')
           \<and> mset (keywords_or_nil q) = mset (keywords_or_nil q')"
    if ok: "\<forall>k \<in> set (keywords_or_nil q) \<union> set (keywords_or_nil q'). k \<noteq> [] \<and> CHR '','' \<notin> set k"
  proof
    assume eq: "canonical q = canonical q'"
    note parts = canonical_inj [OF eq]
    have "sort (keywords_or_nil q) = sort (keywords_or_nil q')"
      using ok parts by (intro join_comma_inj) auto
    then have "mset (sort (keywords_or_nil q)) = mset (sort (keywords_or_nil q'))" by simp
    then have "mset (keywords_or_nil q) = mset (keywords_or_nil q')" by simp
    with parts show "question q = question q' \<and> answer q = answer q'
           \<and> or_empty (category q) = or_empty (category q')
           \<and> or_empty (audience q) = or_empty (audience q')
           \<and> mset (keywords_or_nil q) = mset (keywords_or_nil q')" by blast
  next
    assume "question q = question q' \<and> answer q = answer q'
           \<and> or_empty (category q) = or_empty (category q')
           \<and> or_empty (audience q) = or_empty (audience q')
           \<and> mset (keywords_or_nil q) = mset (keywords_or_nil q')"
    then show "canonical q = canonical q'"
      by (auto simp: canonical_def dest: sort_mset_cong)
  qed
  show ?thesis
    using perm fmt sens by (simp add: calculateQuestionHash_length) (simp add: calculateQuestionHash_def)
qed

theorem calculateQuestionHash_fingerprint_witness:
  "mset [''k2'', ''k1''] = mset [''k1'', ''k2'']
   \<and> calculateQuestionHash env0 (rec0\<lparr>qa_keywords := Some [''k2'', ''k1'']\<rparr>)
       = calculateQuestionHash env0 (rec0\<lparr>qa_keywords := Some [''k1'', ''k2'']\<rparr>)
   \<and> keywords_or_nil rec0 = [''k2'', ''k1'']
   \<and> keywords_or_nil (rec0\<lparr>answer := ''A0, edited''\<rparr>) = [''k2'', ''k1'']
   \<and> canonical rec0 \<noteq> canonical (rec0\<lparr>answer := ''A0, edited''\<rparr>)"
  using calculateQuestionHash_fingerprint
    [of "[''k2'', ''k1'']" "[''k1'', ''k2'']" env0 rec0 "rec0\<lparr>answer := ''A0, edited''\<rparr>"]
  by (simp add: rec0_def keywords_or_nil_def)

text \<open>
  Against claim C5 as stated: a keyword that holds a comma and the two keywords it
  splits into give one canonical text, so this edit of the keyword set is not seen.
\<close>

theorem calculateQuestionHash_keyword_collision:
  "set (keywords_or_nil rec_comma) \<noteq> set (keywords_or_nil rec_split)
   \<and> canonical rec_comma = canonical rec_split
   \<and> calculateQuestionHash env0 rec_comma = calculateQuestionHash env0 rec_split"
  by (simp add: rec_comma_def rec_split_def keywords_or_nil_def canonical_def calculateQuestionHash_def)

subsection \<open>The search API\<close>

lemma search_raw_result: "ragSearch env0 search_db ''what?'' = Inr search_raw"
  by (simp add: env0_def search_db_def search_raw_def similaritySearch_def tagged_chunk_def
      sort_by_def score_chunk_def slice0_def cosineSimilarity_def sqrt_25)

lemma search_world_result:
  "searchSimilarQuestions env0 ''what?'' 10 search_world = (Inr search_hits, search_world)"
  by (simp add: searchSimilarQuestions_def search_raw_result
      search_world_def fresh_world_def search_raw_def slice0_def
      convertResult_def match_index_here_def is_digit_def
      parseInt_def digit_val_def from_corpus_def unresolved_hit_def rec0_def or_empty_def
      keywords_or_nil_def search_hits_def)

lemma from_corpus_fields:
  "similarity (from_corpus qs i s idx) = s \<and> rank (from_corpus qs i s idx) = idx + 1
   \<and> h_index (from_corpus qs i s idx) = Some i"
  by (simp add: from_corpus_def unresolved_hit_def Let_def)

lemma convertResult_fields:
  assumes "convertResult qd cmm r idx = Inr h"
  shows "similarity h = score r \<and> rank h = idx + 1
         \<and> (\<forall>i. hit_payloadIndex r = Some i \<longrightarrow> h_index h = Some i)"
  using assms
  by (auto simp: convertResult_def hit_payloadIndex_def from_corpus_fields unresolved_hit_def
      split: option.splits prod.splits)

lemma convertResult_unresolved:
  assumes "hit_payloadIndex r = Some i" "length qs \<le> i"
  shows "convertResult (Some qs) cmm r idx = Inr (unresolved_hit (Some i) (score r) idx)"
  using assms
  by (auto simp: convertResult_def hit_payloadIndex_def from_corpus_def split: option.splits)

lemma convertResults_nth:
  "convertResults qd cmm idx rs = Inr hs \<Longrightarrow>
   length hs = length rs \<and> (\<forall>j<length rs. convertResult qd cmm (rs ! j) (idx + j) = Inr (hs ! j))"
proof (induction rs arbitrary: idx hs)
  case Nil
  then show ?case by simp
next
  case (Cons r rs)
  from Cons.prems obtain h hs' where h: "convertResult qd cmm r idx = Inr h"
    and hs': "convertResults qd cmm (idx + 1) rs = Inr hs'" and hs: "hs = h # hs'"
    by (auto split: sum.splits)
  from Cons.IH [OF hs'] have len: "length hs' = length rs"
    and nth: "\<And>j. j < length rs \<Longrightarrow> convertResult qd cmm (rs ! j) (idx + 1 + j) = Inr (hs' ! j)"
    by auto
  show ?case
  proof (intro conjI allI impI)
    show "length hs = length (r # rs)" using len hs by simp
  next
    fix j assume "j < length (r # rs)"
    then show "convertResult qd cmm ((r # rs) ! j) (idx + j) = Inr (hs ! j)"
      using h hs nth [of "j - 1"] by (cases j) auto
  qed
qed

lemma searchSimilarQuestions_Inr:
  assumes "searchSimilarQuestions env userQuestion topK w = (Inr hs, w')"
  shows "\<exists>db results. ragApp w' = Some db \<and> ragSearch env db userQuestion = Inr results
          \<and> convertResults (questionsData w') (chunkMetadataMap w') 0 (slice0 results topK) = Inr hs"
  using assms
  by (auto simp: searchSimilarQuestions_def split: if_splits prod.splits option.splits sum.splits)

text \<open>
  Claim C1, as amended. When the search returns, its list has one entry for each of the
  first \<open>topK\<close> raw results, in their order: entry \<open>j\<close> has rank \<open>j + 1\<close>, the score
  of raw result \<open>j\<close>, and its payload index when that can be recovered. Results of one
  payload index are not merged.
\<close>

theorem searchSimilarQuestions_one_entry_per_hit:
  assumes "searchSimilarQuestions env userQuestion topK w = (Inr hs, w')"
  shows "\<exists>db results. ragApp w' = Some db \<and> ragSearch env db userQuestion = Inr results
          \<and> length hs = length (slice0 results topK)
          \<and> (\<forall>j<length hs.
                rank (hs ! j) = j + 1
                \<and> similarity (hs ! j) = score (slice0 results topK ! j)
                \<and> (\<forall>i. hit_payloadIndex (slice0 results topK ! j) = Some i \<longrightarrow> h_index (hs ! j) = Some i))"
proof -
  from searchSimilarQuestions_Inr [OF assms] obtain db results where
    db: "ragApp w' = Some db" and res: "ragSearch env db userQuestion = Inr results"
    and conv: "convertResults (questionsData w') (chunkMetadataMap w') 0 (slice0 results topK) = Inr hs"
    by blast
  note n = convertResults_nth [OF conv]
  have "rank (hs ! j) = j + 1
        \<and> similarity (hs ! j) = score (slice0 results topK ! j)
        \<and> (\<forall>i. hit_payloadIndex (slice0 results topK ! j) = Some i \<longrightarrow> h_index (hs ! j) = Some i)"
    if "j < length hs" for j
  proof -
    from that n have "convertResult (questionsData w') (chunkMetadataMap w') (slice0 results topK ! j) (0 + j) = Inr (hs ! j)"
      by simp
    from convertResult_fields [OF this] show ?thesis by simp
  qed
  with db res n show ?thesis by blast
qed

theorem searchSimilarQuestions_one_entry_per_hit_witness:
  "searchSimilarQuestions env0 ''what?'' 10 search_world = (Inr search_hits, search_world)
   \<and> map h_index search_hits = [Some 0, Some 0, Some 5]
   \<and> (\<exists>db results. ragApp search_world = Some db \<and> ragSearch env0 db ''what?'' = Inr results
          \<and> length search_hits = length (slice0 results 10)
          \<and> (\<forall>j<length search_hits.
                rank (search_hits ! j) = j + 1
                \<and> similarity (search_hits ! j) = score (slice0 results 10 ! j)
                \<and> (\<forall>i. hit_payloadIndex (slice0 results 10 ! j) = Some i \<longrightarrow> h_index (search_hits ! j) = Some i)))"
  using search_world_result searchSimilarQuestions_one_entry_per_hit [OF search_world_result]
  by (simp add: search_hits_def)

text \<open>
  Against claim C1 as stated: two chunks of record 0 among the raw results give two
  entries of index 0.
\<close>

theorem searchSimilarQuestions_keeps_duplicates:
  "(case fst (searchSimilarQuestions env0 ''what?'' 10 search_world) of
      Inl e \<Rightarrow> [] | Inr hs \<Rightarrow> map h_index hs) = [Some 0, Some 0, Some 5]"
  by (simp add: search_world_result search_hits_def)

text \<open>
  Claim C3, as amended. A raw result among the first \<open>topK\<close> whose payload index lies
  outside the corpus still has its entry in the list returned: the entry carries that
  index, the score and the rank, and its question, answer, category, audience and
  keywords are empty.
\<close>

theorem searchSimilarQuestions_unresolved_entry:
  assumes "searchSimilarQuestions env userQuestion topK w = (Inr hs, w')"
    and "ragApp w' = Some db" and "ragSearch env db userQuestion = Inr results"
    and "questionsData w' = Some qs"
    and "j < length hs"
    and "hit_payloadIndex (slice0 results topK ! j) = Some i"
    and "length qs \<le> i"
  shows "length hs = length (slice0 results topK)
         \<and> hs ! j = unresolved_hit (Some i) (score (slice0 results topK ! j)) j
         \<and> h_index (hs ! j) = Some i \<and> h_question (hs ! j) = [] \<and> h_answer (hs ! j) = []"
proof -
  from searchSimilarQuestions_Inr [OF assms(1)] assms(2,3)
  have conv: "convertResults (questionsData w') (chunkMetadataMap w') 0 (slice0 results topK) = Inr hs"
    by auto
  note n = convertResults_nth [OF conv]
  with assms(5) have "convertResult (questionsData w') (chunkMetadataMap w') (slice0 results topK ! j) (0 + j) = Inr (hs ! j)"
    by simp
  with convertResult_unresolved [OF assms(6,7)] assms(4)
  have "hs ! j = unresolved_hit (Some i) (score (slice0 results topK ! j)) j" by simp
  with n show ?thesis by (simp add: unresolved_hit_def)
qed

text \<open>
  Against claim C3 as stated: the corpus has one record, a raw result carries index 5,
  and the list returned holds an entry of index 5 with empty question and answer.
\<close>

theorem searchSimilarQuestions_returns_unresolved:
  "(case fst (searchSimilarQuestions env0 ''what?'' 10 search_world) of
      Inl e \<Rightarrow> [] | Inr hs \<Rightarrow> map (\<lambda>h. (h_index h, h_question h, h_answer h)) hs)
   = [(Some 0, ''Q0'', ''A0''), (Some 0, ''Q0'', ''A0''), (Some 5, [], [])]
   \<and> questionsData search_world = Some [rec0]"
  by (simp add: search_world_result search_hits_def) (simp add: search_world_def)

theorem searchSimilarQuestions_unresolved_entry_witness:
  "searchSimilarQuestions env0 ''what?'' 10 search_world = (Inr search_hits, search_world)
   \<and> ragApp search_world = Some search_db
   \<and> ragSearch env0 search_db ''what?'' = Inr search_raw
   \<and> questionsData search_world = Some [rec0]
   \<and> (2::nat) < length search_hits
   \<and> hit_payloadIndex (slice0 search_raw 10 ! 2) = Some 5
   \<and> length [rec0] \<le> (5::nat)
   \<and> search_hits ! 2 = unresolved_hit (Some 5) 0 2
   \<and> h_question (search_hits ! 2) = [] \<and> h_answer (search_hits ! 2) = []"
proof -
  have a: "ragApp search_world = Some search_db"
    and q: "questionsData search_world = Some [rec0]"
    by (simp_all add: search_world_def fresh_world_def)
  have j: "(2::nat) < length search_hits" by (simp add: search_hits_def)
  have p: "hit_payloadIndex (slice0 search_raw 10 ! 2) = Some 5"
    by (simp add: search_raw_def slice0_def hit_payloadIndex_def match_index_here_def
        is_digit_def parseInt_def digit_val_def)
  have l: "length [rec0] \<le> (5::nat)" by simp
  have s: "score (slice0 search_raw 10 ! 2) = 0" by (simp add: search_raw_def slice0_def)
  show ?thesis
    using searchSimilarQuestions_unresolved_entry [OF search_world_result a search_raw_result q j p l]
      search_world_result a search_raw_result q j p l s
    by (simp add: unresolved_hit_def)
qed

subsection \<open>One pass of the reconciler\<close>

lemma set_object_keys: "set (object_keys l) = fst ` set l"
  by (simp add: object_keys_def)

lemma current_ledger_truthy:
  assumes "i \<in> set (object_keys (current_ledger env qs))"
  shows "truthy (map_of (current_ledger env qs) i)"
proof -
  from assms obtain v where v: "(i, v) \<in> set (current_ledger env qs)"
    by (auto simp: set_object_keys)
  then obtain v' where m: "map_of (current_ledger env qs) i = Some v'"
    by (meson weak_map_of_SomeI)
  then have "(i, v') \<in> set (current_ledger env qs)" by (rule map_of_SomeD)
  then have "v' \<in> set (map (calculateQuestionHash env) qs)"
    by (auto simp: current_ledger_def in_set_enumerate_eq)
  then have "v' \<noteq> []" using calculateQuestionHash_nonempty by auto
  with m show ?thesis by (simp add: truthy_def)
qed

lemma calculateQuestionsIndicesHash_ok:
  "questions_file w = Some (raw, Some qs) \<Longrightarrow>
   calculateQuestionsIndicesHash env w =
     (current_ledger env qs, w\<lparr>questionsData := Some (map keywords_sorted qs)\<rparr>)"
  by (simp add: calculateQuestionsIndicesHash_def loadQuestions_def current_ledger_def)

lemma findChangedQuestions_unchanged:
  assumes "questions_file w = Some (raw, Some qs)"
      and "indices_hash_file w = Some (current_ledger env qs)"
  shows "findChangedQuestions env w = (no_changes, w\<lparr>questionsData := Some (map keywords_sorted qs)\<rparr>)"
proof -
  have f: "filter (\<lambda>i. \<not> truthy (map_of (current_ledger env qs) i)) (object_keys (current_ledger env qs)) = []"
    by (simp add: current_ledger_truthy)
  show ?thesis
    using assms f
    by (simp add: findChangedQuestions_def calculateQuestionsIndicesHash_ok
        getStoredIndicesHash_def Let_def no_changes_def)
qed

lemma vectors_init: "vectors (init d db) = vectors db"
  by (simp add: init_def Let_def)

lemma dimensions_init: "dimensions (init d db) = Some d"
  by (simp add: init_def Let_def)

lemma calculateQuestionsHash_ok:
  "questions_file w = Some (raw, p) \<Longrightarrow> calculateQuestionsHash env w = Some (digest_hex (md5 env raw))"
  by (simp add: calculateQuestionsHash_def)

lemma digest_hex_nonempty: "digest_hex d \<noteq> []"
proof -
  have "length (digest_hex d) = 32" by (simp add: digest_hex_def length_hex_of)
  then show ?thesis by auto
qed

lemma saveHashes_ok:
  assumes "questions_file w = Some (raw, Some qs)"
  shows "saveHashes env w =
     saveHash (digest_hex (md5 env raw))
       (saveIndicesHash (current_ledger env qs) (w\<lparr>questionsData := Some (map keywords_sorted qs)\<rparr>))"
proof -
  have q: "questions_file (saveIndicesHash l (w\<lparr>questionsData := x\<rparr>)) = Some (raw, Some qs)" for l x
    using assms by (simp add: saveIndicesHash_def log_event_def Let_def)
  show ?thesis
    by (simp add: saveHashes_def calculateQuestionsIndicesHash_ok [OF assms] Let_def
        calculateQuestionsHash_ok [OF q] digest_hex_nonempty)
qed

lemma unchanged_pass:
  assumes ni: "\<not> isInitialized w"
      and qf: "questions_file w = Some (raw, Some qs)"
      and cf: "cache_file w = CacheGood c"
      and cv: "c_vectors c = Some vs" "vs \<noteq> []"
      and lf: "indices_hash_file w = Some (current_ledger env qs)"
  shows "\<exists>w'. initializeRAG env w = (None, w')
          \<and> ragApp w' = Some \<lparr>vectors = vs, dimensions = Some (embedderDimensions env)\<rparr>
          \<and> cache_file w' = cache_file w
          \<and> indices_hash_file w' = indices_hash_file w
          \<and> hash_file w' = (if hash_writable w then Some (digest_hex (md5 env raw)) else hash_file w)
          \<and> questions_file w' = questions_file w
          \<and> isInitialized w'
          \<and> trace w' = trace w @ [LogCacheLoaded (length vs), LedgerWrite, DigestWrite]"
proof -
  let ?db = "\<lparr>vectors = vs, dimensions = Some (embedderDimensions env)\<rparr>"
  let ?w1 = "w\<lparr>questionsData := Some qs\<rparr>"
  let ?w2 = "log_event (LogCacheLoaded (length vs)) ?w1"
  let ?w4 = "?w2\<lparr>ragApp := Some ?db\<rparr>"
  have lq: "loadQuestions w = (Inr qs, ?w1)" using qf by (simp add: loadQuestions_def)
  obtain d0 where lf0: "loadFromFile new_db ?w1 = (True, \<lparr>vectors = vs, dimensions = d0\<rparr>, ?w2)"
    using cf cv by (simp add: loadFromFile_def new_db_def Let_def)
  have i0: "init (embedderDimensions env) \<lparr>vectors = vs, dimensions = d0\<rparr> = ?db"
    using cv by (simp add: init_def Let_def)
  have step: "initializeRAG env w = incrementalUpdate env ?w4"
    using ni cv by (simp add: initializeRAG_def lq lf0 i0 Let_def hasVectors_def)
  have qf4: "questions_file ?w4 = Some (raw, Some qs)" using qf by (simp add: log_event_def)
  have lf4: "indices_hash_file ?w4 = Some (current_ledger env qs)" using lf by (simp add: log_event_def)
  let ?w5 = "?w4\<lparr>questionsData := Some (map keywords_sorted qs)\<rparr>"
  obtain w6 where lm: "loadMetadata ?w5 = (None, w6)"
    and w6: "w6 = ?w5\<lparr>chunkMetadataMap := chunkMetadataMap w6\<rparr>"
    by (simp add: loadMetadata_def)
  have qf6: "questions_file (w6\<lparr>isInitialized := True\<rparr>) = Some (raw, Some qs)"
    by (subst w6) (simp add: qf log_event_def)
  have inc: "incrementalUpdate env ?w4 = (None, saveHashes env (w6\<lparr>isInitialized := True\<rparr>))"
    by (simp add: incrementalUpdate_def findChangedQuestions_unchanged [OF qf4 lf4] no_changes_def lm)
  let ?w' = "saveHashes env (w6\<lparr>isInitialized := True\<rparr>)"
  have sh: "?w' = saveHash (digest_hex (md5 env raw))
       (saveIndicesHash (current_ledger env qs) (w6\<lparr>isInitialized := True, questionsData := Some (map keywords_sorted qs)\<rparr>))"
    by (simp add: saveHashes_ok [OF qf6])
  have "ragApp ?w' = Some ?db" "cache_file ?w' = cache_file w" "indices_hash_file ?w' = indices_hash_file w"
    "hash_file ?w' = (if hash_writable w then Some (digest_hex (md5 env raw)) else hash_file w)"
    "questions_file ?w' = questions_file w" "isInitialized ?w'"
    "trace ?w' = trace w @ [LogCacheLoaded (length vs), LedgerWrite, DigestWrite]"
    unfolding sh by (subst w6, simp add: saveHash_def saveIndicesHash_def log_event_def Let_def lf)+
  with step inc show ?thesis by simp
qed

lemma embed_ok_Nil: "embed_ok env r []"
  by (simp add: embed_ok_def)

lemma embed_ok_single_fail: "addLoader env t = Inl e \<Longrightarrow> embed_ok env (Some e) [AddLoader i t]"
  by (simp add: embed_ok_def)

lemma embed_ok_Cons:
  assumes "addLoader env t = Inr cs" "embed_ok env r evs"
  shows "embed_ok env r (AddLoader i t # evs)"
  using assms unfolding embed_ok_def by (cases "evs = []") auto

lemma processQuestion_run:
  assumes "questionsData w = Some qd" "ragApp w = Some db"
  shows "processQuestion env i w = (Some TypeError, w)
       \<or> (\<exists>e. processQuestion env i w
              = (Some e, w\<lparr>chunkMetadataMap := map_set i (make_metadata i (qd ! i)) (chunkMetadataMap w),
                           trace := trace w @ [AddLoader i (textWithMetadata i (qd ! i))]\<rparr>)
             \<and> addLoader env (textWithMetadata i (qd ! i)) = Inl e)
       \<or> (\<exists>cs. processQuestion env i w
              = (None, w\<lparr>chunkMetadataMap := map_set i (make_metadata i (qd ! i)) (chunkMetadataMap w),
                         ragApp := Some (db\<lparr>vectors := vectors db @ cs\<rparr>),
                         trace := trace w @ [AddLoader i (textWithMetadata i (qd ! i))]\<rparr>)
             \<and> addLoader env (textWithMetadata i (qd ! i)) = Inr cs)"
proof (cases "length qd \<le> i")
  case True
  then show ?thesis using assms by (simp add: processQuestion_def)
next
  case False
  show ?thesis
  proof (cases "addLoader env (textWithMetadata i (qd ! i))")
    case (Inl e)
    with False assms show ?thesis
      by (simp add: processQuestion_def Let_def log_event_def)
  next
    case (Inr cs)
    with False assms show ?thesis
      by (simp add: processQuestion_def Let_def log_event_def insertChunks_def)
  qed
qed

lemma processQuestions_run:
  assumes "questionsData w = Some qd" "ragApp w = Some db"
  shows "\<exists>r cm db' evs. processQuestions env is w
            = (r, w\<lparr>chunkMetadataMap := cm, ragApp := Some db', trace := trace w @ evs\<rparr>)
          \<and> dimensions db' = dimensions db \<and> embed_ok env r evs"
  using assms
proof (induction "is" arbitrary: w db)
  case Nil
  have "processQuestions env [] w
          = (None, w\<lparr>chunkMetadataMap := chunkMetadataMap w, ragApp := Some db, trace := trace w @ []\<rparr>)"
    using Nil by simp
  then show ?case using embed_ok_Nil by blast
next
  case (Cons i "is")
  let ?t = "textWithMetadata i (qd ! i)"
  let ?cm = "map_set i (make_metadata i (qd ! i)) (chunkMetadataMap w)"
  from processQuestion_run [OF Cons.prems, of env i]
  consider (a) "processQuestion env i w = (Some TypeError, w)"
    | (b) e where "processQuestion env i w
              = (Some e, w\<lparr>chunkMetadataMap := ?cm, trace := trace w @ [AddLoader i ?t]\<rparr>)"
        "addLoader env ?t = Inl e"
    | (c) cs where "processQuestion env i w
              = (None, w\<lparr>chunkMetadataMap := ?cm, ragApp := Some (db\<lparr>vectors := vectors db @ cs\<rparr>),
                         trace := trace w @ [AddLoader i ?t]\<rparr>)"
        "addLoader env ?t = Inr cs"
    by blast
  then show ?case
  proof cases
    case a
    then have "processQuestions env (i # is) w
        = (Some TypeError, w\<lparr>chunkMetadataMap := chunkMetadataMap w, ragApp := Some db, trace := trace w @ []\<rparr>)"
      using Cons.prems by simp
    then show ?thesis using embed_ok_Nil by blast
  next
    case b
    then have "processQuestions env (i # is) w
        = (Some e, w\<lparr>chunkMetadataMap := ?cm, ragApp := Some db, trace := trace w @ [AddLoader i ?t]\<rparr>)"
      using Cons.prems by simp
    then show ?thesis using embed_ok_single_fail [OF b(2)] by blast
  next
    case c
    let ?w1 = "w\<lparr>chunkMetadataMap := ?cm, ragApp := Some (db\<lparr>vectors := vectors db @ cs\<rparr>),
                         trace := trace w @ [AddLoader i ?t]\<rparr>"
    have q1: "questionsData ?w1 = Some qd" and r1: "ragApp ?w1 = Some (db\<lparr>vectors := vectors db @ cs\<rparr>)"
      using Cons.prems by simp_all
    from Cons.IH [OF q1 r1] obtain r cm' db' evs where
      ih: "processQuestions env is ?w1
            = (r, ?w1\<lparr>chunkMetadataMap := cm', ragApp := Some db', trace := trace ?w1 @ evs\<rparr>)"
      and d: "dimensions db' = dimensions (db\<lparr>vectors := vectors db @ cs\<rparr>)"
      and ok: "embed_ok env r evs"
      by blast
    have "processQuestions env (i # is) w
        = (r, w\<lparr>chunkMetadataMap := cm', ragApp := Some db', trace := trace w @ (AddLoader i ?t # evs)\<rparr>)"
      using c(1) ih by simp
    moreover have "dimensions db' = dimensions db" using d by simp
    moreover have "embed_ok env r (AddLoader i ?t # evs)" using c(2) ok by (rule embed_ok_Cons)
    ultimately show ?thesis by blast
  qed
qed

lemma dimensions_delete_all: "dimensions (delete_all is db) = dimensions db"
  by (induction "is" arbitrary: db) (simp_all add: deleteVectorsByIndex_def Let_def)

lemma loadFromFile_cases:
  "(\<exists>c d. cache_file w = CacheGood c
       \<and> loadFromFile db w = (True, db\<lparr>vectors := cache_vectors c, dimensions := d\<rparr>,
                               log_event (LogCacheLoaded (length (cache_vectors c))) w))
   \<or> (\<exists>ev. is_load_log ev \<and> (\<forall>c. cache_file w \<noteq> CacheGood c)
          \<and> loadFromFile db w = (False, db, log_event ev w))"
proof (cases "cache_file w")
  case CacheMissing
  then have "is_load_log LogCacheNotFound \<and> (\<forall>c. cache_file w \<noteq> CacheGood c)
          \<and> loadFromFile db w = (False, db, log_event LogCacheNotFound w)"
    by (simp add: loadFromFile_def is_load_log_def)
  then show ?thesis by blast
next
  case CacheCorrupt
  then have "is_load_log LogCacheError \<and> (\<forall>c. cache_file w \<noteq> CacheGood c)
          \<and> loadFromFile db w = (False, db, log_event LogCacheError w)"
    by (simp add: loadFromFile_def is_load_log_def)
  then show ?thesis by blast
next
  case (CacheGood c)
  then have "cache_file w = CacheGood c
       \<and> loadFromFile db w = (True, db\<lparr>vectors := cache_vectors c,
                 dimensions := (case c_dimensions c of None \<Rightarrow> None
                                | Some d \<Rightarrow> if d = 0 then None else Some d)\<rparr>,
                               log_event (LogCacheLoaded (length (cache_vectors c))) w)"
    by (simp add: loadFromFile_def cache_vectors_def Let_def)
  then show ?thesis by blast
qed

lemma findChangedQuestions_world:
  "questions_file w = Some (raw, Some qs) \<Longrightarrow>
   snd (findChangedQuestions env w) = w\<lparr>questionsData := Some (map keywords_sorted qs)\<rparr>"
  by (simp add: findChangedQuestions_def calculateQuestionsIndicesHash_ok Let_def)

lemma loadMetadata_ok:
  "questionsData w = Some qd \<Longrightarrow>
   loadMetadata w = (None, w\<lparr>chunkMetadataMap :=
       fold (\<lambda>(i, q). map_set i (make_metadata i q)) (enumerate 0 qd) (chunkMetadataMap w)\<rparr>)"
  by (simp add: loadMetadata_def)

lemma fullRebuild_run:
  assumes "questionsData w = Some qd" "ragApp w = Some db"
  shows "\<exists>r evs cm db'. embed_ok env r evs \<and> dimensions db' = Some (embedderDimensions env)
          \<and> fullRebuild env w
             = (if r = None
                then saveCacheAndHashes env
                       (w\<lparr>chunkMetadataMap := cm, ragApp := Some db', trace := trace w @ evs\<rparr>)
                else (r, w\<lparr>chunkMetadataMap := cm, ragApp := Some db', trace := trace w @ evs\<rparr>))"
proof -
  let ?w1 = "w\<lparr>ragApp := Some (init (embedderDimensions env) db)\<rparr>"
  have q1: "questionsData ?w1 = Some qd" and r1: "ragApp ?w1 = Some (init (embedderDimensions env) db)"
    using assms by simp_all
  from processQuestions_run [OF q1 r1, of env "[0..<length qd]"] obtain r cm db' evs where
    run: "processQuestions env [0..<length qd] ?w1
            = (r, ?w1\<lparr>chunkMetadataMap := cm, ragApp := Some db', trace := trace ?w1 @ evs\<rparr>)"
    and d: "dimensions db' = dimensions (init (embedderDimensions env) db)"
    and ok: "embed_ok env r evs"
    by blast
  have "fullRebuild env w
             = (if r = None
                then saveCacheAndHashes env
                       (w\<lparr>chunkMetadataMap := cm, ragApp := Some db', trace := trace w @ evs\<rparr>)
                else (r, w\<lparr>chunkMetadataMap := cm, ragApp := Some db', trace := trace w @ evs\<rparr>))"
    using assms run by (cases r) (simp_all add: fullRebuild_def Let_def)
  with ok d have "embed_ok env r evs \<and> dimensions db' = Some (embedderDimensions env)
          \<and> fullRebuild env w
             = (if r = None
                then saveCacheAndHashes env
                       (w\<lparr>chunkMetadataMap := cm, ragApp := Some db', trace := trace w @ evs\<rparr>)
                else (r, w\<lparr>chunkMetadataMap := cm, ragApp := Some db', trace := trace w @ evs\<rparr>))"
    by (simp add: dimensions_init)
  then show ?thesis by blast
qed

lemma incrementalUpdate_run:
  assumes "questions_file w = Some (raw, Some qs)" "ragApp w = Some db"
      and "dimensions db = Some dims"
  shows "(\<exists>cm. incrementalUpdate env w
            = (None, saveHashes env (w\<lparr>questionsData := Some (map keywords_sorted qs),
                                        chunkMetadataMap := cm, isInitialized := True\<rparr>)))
       \<or> (\<exists>r evs cm db'. embed_ok env r evs \<and> dimensions db' = Some dims
          \<and> incrementalUpdate env w
             = (if r = None
                then saveCacheAndHashes env
                       (w\<lparr>questionsData := Some (map keywords_sorted qs), chunkMetadataMap := cm,
                          ragApp := Some db', trace := trace w @ evs\<rparr>)
                else (r, w\<lparr>questionsData := Some (map keywords_sorted qs), chunkMetadataMap := cm,
                          ragApp := Some db', trace := trace w @ evs\<rparr>)))"
proof -
  obtain chg where fc: "findChangedQuestions env w = (chg, w\<lparr>questionsData := Some (map keywords_sorted qs)\<rparr>)"
    using findChangedQuestions_world [OF assms(1), of env] by (cases "findChangedQuestions env w") simp
  let ?w1 = "w\<lparr>questionsData := Some (map keywords_sorted qs)\<rparr>"
  show ?thesis
  proof (cases "length (allChanged chg) = 0 \<and> length (deletedIndices chg) = 0")
    case True
    define cm where "cm = fold (\<lambda>(i, q). map_set i (make_metadata i q))
                            (enumerate 0 (map keywords_sorted qs)) (chunkMetadataMap w)"
    have lm: "loadMetadata ?w1 = (None, ?w1\<lparr>chunkMetadataMap := cm\<rparr>)"
      by (simp add: loadMetadata_ok cm_def)
    have "incrementalUpdate env w = (None, saveHashes env (?w1\<lparr>chunkMetadataMap := cm, isInitialized := True\<rparr>))"
      using True by (simp add: incrementalUpdate_def fc lm)
    then show ?thesis by blast
  next
    case False
    let ?db3 = "delete_all (changed chg) (delete_all (deletedIndices chg) db)"
    let ?w3 = "?w1\<lparr>ragApp := Some ?db3\<rparr>"
    have q3: "questionsData ?w3 = Some (map keywords_sorted qs)" and r3: "ragApp ?w3 = Some ?db3"
      by simp_all
    from processQuestions_run [OF q3 r3, of env "sort (changed chg @ newIndices chg)"]
    obtain r cm db' evs where
      run: "processQuestions env (sort (changed chg @ newIndices chg)) ?w3
            = (r, ?w3\<lparr>chunkMetadataMap := cm, ragApp := Some db', trace := trace ?w3 @ evs\<rparr>)"
      and d: "dimensions db' = dimensions ?db3"
      and ok: "embed_ok env r evs"
      by blast
    let ?w4 = "?w3\<lparr>chunkMetadataMap := cm, ragApp := Some db', trace := trace ?w3 @ evs\<rparr>"
    define cm' where "cm' = fold (\<lambda>(i, q). map_set i (make_metadata i q))
                              (enumerate 0 (map keywords_sorted qs)) cm"
    have lm: "loadMetadata ?w4
        = (None, w\<lparr>questionsData := Some (map keywords_sorted qs), chunkMetadataMap := cm',
                          ragApp := Some db', trace := trace w @ evs\<rparr>)"
      by (simp add: loadMetadata_ok cm'_def)
    have d': "dimensions db' = Some dims" using d assms(3) by (simp add: dimensions_delete_all)
    have cond: "(allChanged chg = [] \<and> deletedIndices chg = []) = False" using False by simp
    show ?thesis
    proof (cases r)
      case None
      have "incrementalUpdate env w
             = saveCacheAndHashes env
                       (w\<lparr>questionsData := Some (map keywords_sorted qs), chunkMetadataMap := cm',
                          ragApp := Some db', trace := trace w @ evs\<rparr>)"
        using None assms(2) run lm by (simp add: incrementalUpdate_def fc Let_def cond)
      with ok d' None have "embed_ok env r evs \<and> dimensions db' = Some dims
          \<and> incrementalUpdate env w
             = (if r = None
                then saveCacheAndHashes env
                       (w\<lparr>questionsData := Some (map keywords_sorted qs), chunkMetadataMap := cm',
                          ragApp := Some db', trace := trace w @ evs\<rparr>)
                else (r, w\<lparr>questionsData := Some (map keywords_sorted qs), chunkMetadataMap := cm',
                          ragApp := Some db', trace := trace w @ evs\<rparr>))"
        by simp
      then show ?thesis by blast
    next
      case (Some e)
      have "incrementalUpdate env w
             = (r, w\<lparr>questionsData := Some (map keywords_sorted qs), chunkMetadataMap := cm,
                          ragApp := Some db', trace := trace w @ evs\<rparr>)"
        using Some assms(2) run by (simp add: incrementalUpdate_def fc Let_def cond)
      with ok d' Some have "embed_ok env r evs \<and> dimensions db' = Some dims
          \<and> incrementalUpdate env w
             = (if r = None
                then saveCacheAndHashes env
                       (w\<lparr>questionsData := Some (map keywords_sorted qs), chunkMetadataMap := cm,
                          ragApp := Some db', trace := trace w @ evs\<rparr>)
                else (r, w\<lparr>questionsData := Some (map keywords_sorted qs), chunkMetadataMap := cm,
                          ragApp := Some db', trace := trace w @ evs\<rparr>))"
        by simp
      then show ?thesis by blast
    qed
  qed
qed

lemma initializeRAG_unreadable:
  assumes "\<not> isInitialized w" "\<forall>raw qs. questions_file w \<noteq> Some (raw, Some qs)"
  shows "initializeRAG env w = (Some ReadError, w)"
  using assms by (auto simp: initializeRAG_def loadQuestions_def split: option.splits prod.splits)

lemma initializeRAG_run:
  assumes ni: "\<not> isInitialized w" and qf: "questions_file w = Some (raw, Some qs)"
  shows "(\<exists>c cm. cache_file w = CacheGood c \<and> cache_vectors c \<noteq> []
           \<and> initializeRAG env w
              = (None, saveHashes env
                   (w\<lparr>questionsData := Some (map keywords_sorted qs), chunkMetadataMap := cm,
                      ragApp := Some \<lparr>vectors = cache_vectors c, dimensions = Some (embedderDimensions env)\<rparr>,
                      trace := trace w @ [LogCacheLoaded (length (cache_vectors c))],
                      isInitialized := True\<rparr>)))
       \<or> (\<exists>ev r evs qd cm db'.
             is_load_log ev \<and> embed_ok env r evs \<and> dimensions db' = Some (embedderDimensions env)
             \<and> initializeRAG env w
                = (if r = None
                   then saveCacheAndHashes env
                          (w\<lparr>questionsData := Some qd, chunkMetadataMap := cm,
                             ragApp := Some db', trace := trace w @ ev # evs\<rparr>)
                   else (r, w\<lparr>questionsData := Some qd, chunkMetadataMap := cm,
                             ragApp := Some db', trace := trace w @ ev # evs\<rparr>)))"
proof -
  let ?dims = "embedderDimensions env"
  let ?w1 = "w\<lparr>questionsData := Some qs\<rparr>"
  have lq: "loadQuestions w = (Inr qs, ?w1)" using qf by (simp add: loadQuestions_def)
  from loadFromFile_cases [of ?w1 new_db]
  consider (good) c d where "cache_file ?w1 = CacheGood c"
      "loadFromFile new_db ?w1 = (True, new_db\<lparr>vectors := cache_vectors c, dimensions := d\<rparr>,
                               log_event (LogCacheLoaded (length (cache_vectors c))) ?w1)"
    | (bad) ev where "is_load_log ev" "loadFromFile new_db ?w1 = (False, new_db, log_event ev ?w1)"
    by blast
  then show ?thesis
  proof cases
    case good
    let ?db1 = "new_db\<lparr>vectors := cache_vectors c, dimensions := d\<rparr>"
    let ?ev = "LogCacheLoaded (length (cache_vectors c))"
    let ?w4 = "(log_event ?ev ?w1)\<lparr>ragApp := Some (init ?dims ?db1)\<rparr>"
    have step: "initializeRAG env w
                  = (if cache_vectors c \<noteq> [] then incrementalUpdate env ?w4 else fullRebuild env ?w4)"
      using ni by (simp add: initializeRAG_def lq good(2) Let_def hasVectors_def vectors_init)
    show ?thesis
    proof (cases "cache_vectors c = []")
      case True
      have q4: "questionsData ?w4 = Some qs" and r4: "ragApp ?w4 = Some (init ?dims ?db1)"
        by (simp_all add: log_event_def)
      from fullRebuild_run [OF q4 r4, of env] obtain r evs cm db' where
        ok: "embed_ok env r evs" and d: "dimensions db' = Some ?dims"
        and fr: "fullRebuild env ?w4
             = (if r = None
                then saveCacheAndHashes env
                       (?w4\<lparr>chunkMetadataMap := cm, ragApp := Some db', trace := trace ?w4 @ evs\<rparr>)
                else (r, ?w4\<lparr>chunkMetadataMap := cm, ragApp := Some db', trace := trace ?w4 @ evs\<rparr>))"
        by blast
      have e: "?w4\<lparr>chunkMetadataMap := cm, ragApp := Some db', trace := trace ?w4 @ evs\<rparr>
               = w\<lparr>questionsData := Some qs, chunkMetadataMap := cm,
                             ragApp := Some db', trace := trace w @ ?ev # evs\<rparr>"
        by (simp add: log_event_def)
      have "is_load_log ?ev \<and> embed_ok env r evs \<and> dimensions db' = Some ?dims
             \<and> initializeRAG env w
                = (if r = None
                   then saveCacheAndHashes env
                          (w\<lparr>questionsData := Some qs, chunkMetadataMap := cm,
                             ragApp := Some db', trace := trace w @ ?ev # evs\<rparr>)
                   else (r, w\<lparr>questionsData := Some qs, chunkMetadataMap := cm,
                             ragApp := Some db', trace := trace w @ ?ev # evs\<rparr>))"
        using ok d step True fr [unfolded e] by (simp add: is_load_log_def)
      then show ?thesis by blast
    next
      case False
      have q4: "questions_file ?w4 = Some (raw, Some qs)" using qf by (simp add: log_event_def)
      have r4: "ragApp ?w4 = Some (init ?dims ?db1)" by (simp add: log_event_def)
      have d4: "dimensions (init ?dims ?db1) = Some ?dims" by (rule dimensions_init)
      have i4: "init ?dims ?db1 = \<lparr>vectors = cache_vectors c, dimensions = Some ?dims\<rparr>"
        using False by (simp add: init_def Let_def new_db_def)
      from incrementalUpdate_run [OF q4 r4 d4, of env]
      consider (same) cm where "incrementalUpdate env ?w4
            = (None, saveHashes env (?w4\<lparr>questionsData := Some (map keywords_sorted qs),
                                        chunkMetadataMap := cm, isInitialized := True\<rparr>))"
        | (upd) r evs cm db' where "embed_ok env r evs" "dimensions db' = Some ?dims"
          "incrementalUpdate env ?w4
             = (if r = None
                then saveCacheAndHashes env
                       (?w4\<lparr>questionsData := Some (map keywords_sorted qs), chunkMetadataMap := cm,
                          ragApp := Some db', trace := trace ?w4 @ evs\<rparr>)
                else (r, ?w4\<lparr>questionsData := Some (map keywords_sorted qs), chunkMetadataMap := cm,
                          ragApp := Some db', trace := trace ?w4 @ evs\<rparr>))"
        by blast
      then show ?thesis
      proof cases
        case same
        have e: "?w4\<lparr>questionsData := Some (map keywords_sorted qs),
                                        chunkMetadataMap := cm, isInitialized := True\<rparr>
              = w\<lparr>questionsData := Some (map keywords_sorted qs), chunkMetadataMap := cm,
                      ragApp := Some \<lparr>vectors = cache_vectors c, dimensions = Some ?dims\<rparr>,
                      trace := trace w @ [?ev],
                      isInitialized := True\<rparr>"
          by (simp add: log_event_def i4)
        have "cache_file w = CacheGood c \<and> cache_vectors c \<noteq> []
           \<and> initializeRAG env w
              = (None, saveHashes env
                   (w\<lparr>questionsData := Some (map keywords_sorted qs), chunkMetadataMap := cm,
                      ragApp := Some \<lparr>vectors = cache_vectors c, dimensions = Some ?dims\<rparr>,
                      trace := trace w @ [?ev],
                      isInitialized := True\<rparr>))"
          using good(1) False step same [unfolded e] by simp
        then show ?thesis by blast
      next
        case upd
        have e: "?w4\<lparr>questionsData := Some (map keywords_sorted qs), chunkMetadataMap := cm,
                          ragApp := Some db', trace := trace ?w4 @ evs\<rparr>
              = w\<lparr>questionsData := Some (map keywords_sorted qs), chunkMetadataMap := cm,
                             ragApp := Some db', trace := trace w @ ?ev # evs\<rparr>"
          by (simp add: log_event_def)
        have "is_load_log ?ev \<and> embed_ok env r evs \<and> dimensions db' = Some ?dims
             \<and> initializeRAG env w
                = (if r = None
                   then saveCacheAndHashes env
                          (w\<lparr>questionsData := Some (map keywords_sorted qs), chunkMetadataMap := cm,
                             ragApp := Some db', trace := trace w @ ?ev # evs\<rparr>)
                   else (r, w\<lparr>questionsData := Some (map keywords_sorted qs), chunkMetadataMap := cm,
                             ragApp := Some db', trace := trace w @ ?ev # evs\<rparr>))"
          using upd(1,2) False step upd(3) [unfolded e] by (simp add: is_load_log_def)
        then show ?thesis by blast
      qed
    qed
  next
    case bad
    let ?w4 = "(log_event ev ?w1)\<lparr>ragApp := Some (init ?dims new_db)\<rparr>"
    have step: "initializeRAG env w = fullRebuild env ?w4"
      using ni by (simp add: initializeRAG_def lq bad(2) Let_def)
    have q4: "questionsData ?w4 = Some qs" and r4: "ragApp ?w4 = Some (init ?dims new_db)"
      by (simp_all add: log_event_def)
    from fullRebuild_run [OF q4 r4, of env] obtain r evs cm db' where
      ok: "embed_ok env r evs" and d: "dimensions db' = Some ?dims"
      and fr: "fullRebuild env ?w4
             = (if r = None
                then saveCacheAndHashes env
                       (?w4\<lparr>chunkMetadataMap := cm, ragApp := Some db', trace := trace ?w4 @ evs\<rparr>)
                else (r, ?w4\<lparr>chunkMetadataMap := cm, ragApp := Some db', trace := trace ?w4 @ evs\<rparr>))"
      by blast
    have e: "?w4\<lparr>chunkMetadataMap := cm, ragApp := Some db', trace := trace ?w4 @ evs\<rparr>
               = w\<lparr>questionsData := Some qs, chunkMetadataMap := cm,
                             ragApp := Some db', trace := trace w @ ev # evs\<rparr>"
      by (simp add: log_event_def)
    have "is_load_log ev \<and> embed_ok env r evs \<and> dimensions db' = Some ?dims
             \<and> initializeRAG env w
                = (if r = None
                   then saveCacheAndHashes env
                          (w\<lparr>questionsData := Some qs, chunkMetadataMap := cm,
                             ragApp := Some db', trace := trace w @ ev # evs\<rparr>)
                   else (r, w\<lparr>questionsData := Some qs, chunkMetadataMap := cm,
                             ragApp := Some db', trace := trace w @ ev # evs\<rparr>))"
      using ok d step fr [unfolded e] bad(1) by simp
    then show ?thesis by blast
  qed
qed

subsection \<open>What a pass writes, and when\<close>

lemma saveHashes_fields:
  assumes "questions_file w = Some (raw, Some qs)"
  shows "trace (saveHashes env w) = trace w @ [LedgerWrite, DigestWrite]"
    and "cache_file (saveHashes env w) = cache_file w"
    and "ragApp (saveHashes env w) = ragApp w"
    and "isInitialized (saveHashes env w) = isInitialized w"
    and "questions_file (saveHashes env w) = questions_file w"
    and "indices_hash_file (saveHashes env w)
           = (if indices_hash_writable w then Some (current_ledger env qs) else indices_hash_file w)"
    and "hash_file (saveHashes env w)
           = (if hash_writable w then Some (digest_hex (md5 env raw)) else hash_file w)"
    and "hash_writable (saveHashes env w) = hash_writable w"
    and "indices_hash_writable (saveHashes env w) = indices_hash_writable w"
    and "cache_writable (saveHashes env w) = cache_writable w"
  by (simp_all add: saveHashes_ok [OF assms] saveHash_def saveIndicesHash_def log_event_def Let_def)

lemma saveCacheAndHashes_fields:
  assumes "ragApp w = Some db" "questions_file w = Some (raw, Some qs)"
  shows "\<exists>w' lg. saveCacheAndHashes env w = (None, w')
      \<and> trace w' = trace w @ [CacheWrite, lg, LedgerWrite, DigestWrite] \<and> \<not> is_write lg
      \<and> (\<forall>i t. lg \<noteq> AddLoader i t)
      \<and> cache_file w' = (if cache_writable w
                          then CacheGood \<lparr>c_vectors = Some (vectors db), c_dimensions = dimensions db,
                                          savedAt = now w\<rparr>
                          else cache_file w)
      \<and> ragApp w' = Some db \<and> isInitialized w' \<and> questions_file w' = questions_file w
      \<and> indices_hash_file w'
           = (if indices_hash_writable w then Some (current_ledger env qs) else indices_hash_file w)
      \<and> hash_file w' = (if hash_writable w then Some (digest_hex (md5 env raw)) else hash_file w)
      \<and> hash_writable w' = hash_writable w"
proof -
  let ?w1 = "snd (saveToFile db w)"
  let ?lg = "if cache_writable w then LogCacheSaved (length (vectors db)) else LogCacheSaveError"
  have q1: "questions_file ?w1 = Some (raw, Some qs)"
    using assms(2) by (simp add: saveToFile_def log_event_def Let_def)
  have t1: "trace ?w1 = trace w @ [CacheWrite, ?lg]"
    and c1: "cache_file ?w1 = (if cache_writable w
                          then CacheGood \<lparr>c_vectors = Some (vectors db), c_dimensions = dimensions db,
                                          savedAt = now w\<rparr>
                          else cache_file w)"
    and o1: "ragApp ?w1 = Some db" "indices_hash_file ?w1 = indices_hash_file w"
      "hash_file ?w1 = hash_file w" "hash_writable ?w1 = hash_writable w"
      "indices_hash_writable ?w1 = indices_hash_writable w" "questions_file ?w1 = questions_file w"
    using assms(1) by (simp_all add: saveToFile_def log_event_def Let_def)
  have s: "saveCacheAndHashes env w = (None, (saveHashes env ?w1)\<lparr>isInitialized := True\<rparr>)"
    using assms(1) by (simp add: saveCacheAndHashes_def Let_def)
  have "\<not> is_write ?lg" "\<forall>i t. ?lg \<noteq> AddLoader i t" by (simp_all add: is_write_def)
  then show ?thesis
    using s t1 c1 o1 by (simp add: saveHashes_fields [OF q1])
qed

lemma embed_ok_no_write: "embed_ok env r evs \<Longrightarrow> filter is_write evs = []"
  by (auto simp: embed_ok_def filter_empty_conv is_write_def)


lemma embed_ok_fail:
  assumes "embed_ok env r evs" "AddLoader i t \<in> set evs" "addLoader env t = Inl e"
  shows "r = Some e \<and> last evs = AddLoader i t"
proof -
  from assms(1,2) have "(\<exists>cs. addLoader env t = Inr cs)
      \<or> (\<exists>e'. r = Some e' \<and> addLoader env t = Inl e' \<and> last evs = AddLoader i t)"
    unfolding embed_ok_def by blast
  with assms(3) show ?thesis by auto
qed

lemma is_load_log_no_write: "is_load_log ev \<Longrightarrow> \<not> is_write ev \<and> (\<forall>i t. ev \<noteq> AddLoader i t)"
  by (cases ev) (simp_all add: is_load_log_def is_write_def)

lemmas pass_defs =
  initializeRAG_def refreshRAG_def loadQuestions_def loadFromFile_def init_def new_db_def
  hasVectors_def fullRebuild_def incrementalUpdate_def processQuestion_def insertChunks_def
  log_event_def saveCacheAndHashes_def saveToFile_def saveHashes_def
  calculateQuestionsIndicesHash_def calculateQuestionsHash_def saveIndicesHash_def saveHash_def
  findChangedQuestions_def getStoredIndicesHash_def object_keys_def truthy_def loadMetadata_def
  deleteVectorsByIndex_def keep_for_index_def match_index_here_def is_digit_def parseInt_def
  digit_val_def keywords_sorted_def make_metadata_def current_ledger_def
  textWithMetadata_def createSearchableText_def show_nat.simps or_empty_def keywords_or_nil_def
  fresh_world_def tagged_chunk_def Let_def upt_rec digit_chars
  digest_hex_nonempty calculateQuestionHash_nonempty

lemma failing_pass:
  "initializeRAG env_fail (fresh_world [rec0, rec1, rec2])
   = (Some EmbedTransport,
      (fresh_world [rec0, rec1, rec2])
        \<lparr>questionsData := Some [rec0, rec1, rec2],
         chunkMetadataMap := [(0, make_metadata 0 rec0), (1, make_metadata 1 rec1)],
         ragApp := Some \<lparr>vectors = [chunk0], dimensions = Some 2\<rparr>,
         trace := [LogCacheNotFound, AddLoader 0 (textWithMetadata 0 rec0),
                   AddLoader 1 (textWithMetadata 1 rec1)]\<rparr>)"
  by (simp add: pass_defs env_fail_def env0_def chunk0_def rec0_def rec1_def rec2_def)

lemma first_pass:
  "initializeRAG env0 (fresh_world [rec0])
   = (None,
      (fresh_world [rec0])
        \<lparr>questionsData := Some [keywords_sorted rec0],
         chunkMetadataMap := [(0, make_metadata 0 rec0)],
         ragApp := Some \<lparr>vectors = [chunk0], dimensions = Some 2\<rparr>,
         cache_file := CacheGood \<lparr>c_vectors = Some [chunk0], c_dimensions = Some 2, savedAt = 0\<rparr>,
         indices_hash_file := Some (current_ledger env0 [rec0]),
         hash_file := Some (digest_hex (md5 env0 ''raw corpus text'')),
         isInitialized := True,
         trace := [LogCacheNotFound, AddLoader 0 (textWithMetadata 0 rec0), CacheWrite,
                   LogCacheSaved 1, LedgerWrite, DigestWrite]\<rparr>)"
  by (simp add: pass_defs env0_def chunk0_def rec0_def)

lemma stale_first_pass: "initializeRAG env0 stale_world = (None, stale_after_first)"
  by (simp add: pass_defs stale_after_first_def stale_world_def env0_def rec0_def)

lemma stale_second_pass: "refreshRAG env0 stale_after_first = (None, stale_after_second)"
  by (simp add: pass_defs stale_after_first_def stale_after_second_def stale_world_def env0_def
      chunk0_def rec0_def)







text \<open>
  Claim C2, as amended. If \<open>addLoader\<close> fails on the text of a record during a pass,
  that call is the last thing the pass does and \<open>initializeRAG\<close> ends with its error.
  A pass that ends with an error writes none of the three artifacts and leaves the
  process uninitialised.
\<close>

theorem embedding_failure_aborts_pass:
  assumes "initializeRAG env w = (r, w')"
  shows "(\<forall>i t e. AddLoader i t \<in> set (drop (length (trace w)) (trace w')) \<longrightarrow>
             addLoader env t = Inl e \<longrightarrow> r = Some e \<and> last (trace w') = AddLoader i t)
       \<and> (r \<noteq> None \<longrightarrow>
             cache_file w' = cache_file w \<and> indices_hash_file w' = indices_hash_file w
             \<and> hash_file w' = hash_file w \<and> \<not> isInitialized w' \<and> writes w' = writes w)"
proof (cases "isInitialized w")
  case True
  with assms have "r = None" "w' = w" by (simp_all add: initializeRAG_def)
  then show ?thesis by simp
next
  case ni: False
  show ?thesis
  proof (cases "\<exists>raw qs. questions_file w = Some (raw, Some qs)")
    case False
    then have "initializeRAG env w = (Some ReadError, w)"
      using ni by (intro initializeRAG_unreadable) auto
    with assms ni show ?thesis by simp
  next
    case True
    then obtain raw qs where qf: "questions_file w = Some (raw, Some qs)" by blast
    from initializeRAG_run [OF ni qf, of env]
    consider (same) c cm where
        "initializeRAG env w
              = (None, saveHashes env
                   (w\<lparr>questionsData := Some (map keywords_sorted qs), chunkMetadataMap := cm,
                      ragApp := Some \<lparr>vectors = cache_vectors c, dimensions = Some (embedderDimensions env)\<rparr>,
                      trace := trace w @ [LogCacheLoaded (length (cache_vectors c))],
                      isInitialized := True\<rparr>))"
      | (upd) ev r0 evs qd cm db' where "is_load_log ev" "embed_ok env r0 evs"
        "initializeRAG env w
                = (if r0 = None
                   then saveCacheAndHashes env
                          (w\<lparr>questionsData := Some qd, chunkMetadataMap := cm,
                             ragApp := Some db', trace := trace w @ ev # evs\<rparr>)
                   else (r0, w\<lparr>questionsData := Some qd, chunkMetadataMap := cm,
                             ragApp := Some db', trace := trace w @ ev # evs\<rparr>))"
      by blast
    then show ?thesis
    proof cases
      case same
      let ?W = "w\<lparr>questionsData := Some (map keywords_sorted qs), chunkMetadataMap := cm,
                      ragApp := Some \<lparr>vectors = cache_vectors c, dimensions = Some (embedderDimensions env)\<rparr>,
                      trace := trace w @ [LogCacheLoaded (length (cache_vectors c))],
                      isInitialized := True\<rparr>"
      have qW: "questions_file ?W = Some (raw, Some qs)" using qf by simp
      from same assms have r: "r = None" and w': "w' = saveHashes env ?W" by simp_all
      have "drop (length (trace w)) (trace w')
              = [LogCacheLoaded (length (cache_vectors c)), LedgerWrite, DigestWrite]"
        by (simp add: w' saveHashes_fields [OF qW])
      with r show ?thesis by simp
    next
      case upd
      let ?W = "w\<lparr>questionsData := Some qd, chunkMetadataMap := cm,
                             ragApp := Some db', trace := trace w @ ev # evs\<rparr>"
      note lg = is_load_log_no_write [OF upd(1)]
      show ?thesis
      proof (cases r0)
        case (Some e0)
        with upd(3) assms have r: "r = Some e0" and w': "w' = ?W" by simp_all
        have new: "drop (length (trace w)) (trace w') = ev # evs" by (simp add: w')
        have a: "r = Some e \<and> last (trace w') = AddLoader i t"
          if "AddLoader i t \<in> set (ev # evs)" "addLoader env t = Inl e" for i t e
        proof -
          from that(1) lg have m: "AddLoader i t \<in> set evs" by auto
          with upd(2) that(2) have "r0 = Some e \<and> last evs = AddLoader i t"
            by (intro embed_ok_fail)
          moreover have "evs \<noteq> []" using m by auto
          ultimately show ?thesis using r Some by (simp add: w')
        qed
        have b: "cache_file w' = cache_file w \<and> indices_hash_file w' = indices_hash_file w
             \<and> hash_file w' = hash_file w \<and> \<not> isInitialized w' \<and> writes w' = writes w"
          using ni lg embed_ok_no_write [OF upd(2)] by (simp add: w' writes_def)
        show ?thesis unfolding new using a b by blast
      next
        case None
        have rW: "ragApp ?W = Some db'" and qW: "questions_file ?W = Some (raw, Some qs)"
          using qf by simp_all
        from saveCacheAndHashes_fields [OF rW qW, of env] obtain w'' lg' where
          s: "saveCacheAndHashes env ?W = (None, w'')"
          and t: "trace w'' = trace ?W @ [CacheWrite, lg', LedgerWrite, DigestWrite]"
            "\<forall>i t. lg' \<noteq> AddLoader i t"
          by blast
        from None upd(3) assms s have r: "r = None" and w': "w' = w''" by simp_all
        have new: "drop (length (trace w)) (trace w')
                     = ev # evs @ [CacheWrite, lg', LedgerWrite, DigestWrite]"
          by (simp add: w' t)
        have a: False if "AddLoader i t \<in> set (ev # evs @ [CacheWrite, lg', LedgerWrite, DigestWrite])"
          "addLoader env t = Inl e" for i t e
        proof -
          from that(1) lg t(2) have "AddLoader i t \<in> set evs" by auto
          with upd(2) that(2) have "r0 = Some e" using embed_ok_fail by blast
          with None show False by simp
        qed
        show ?thesis unfolding new using a r by blast
      qed
    qed
  qed
qed

theorem embedding_failure_aborts_pass_witness:
  "initializeRAG env_fail (fresh_world [rec0, rec1, rec2])
     = (Some EmbedTransport, snd (initializeRAG env_fail (fresh_world [rec0, rec1, rec2])))
   \<and> AddLoader 1 (textWithMetadata 1 rec1)
       \<in> set (drop (length (trace (fresh_world [rec0, rec1, rec2])))
                 (trace (snd (initializeRAG env_fail (fresh_world [rec0, rec1, rec2])))))
   \<and> addLoader env_fail (textWithMetadata 1 rec1) = Inl EmbedTransport
   \<and> last (trace (snd (initializeRAG env_fail (fresh_world [rec0, rec1, rec2]))))
       = AddLoader 1 (textWithMetadata 1 rec1)
   \<and> indices_hash_file (snd (initializeRAG env_fail (fresh_world [rec0, rec1, rec2])))
       = indices_hash_file (fresh_world [rec0, rec1, rec2])
   \<and> cache_file (snd (initializeRAG env_fail (fresh_world [rec0, rec1, rec2])))
       = cache_file (fresh_world [rec0, rec1, rec2])
   \<and> \<not> isInitialized (snd (initializeRAG env_fail (fresh_world [rec0, rec1, rec2])))"
proof -
  let ?w = "fresh_world [rec0, rec1, rec2]"
  let ?w' = "snd (initializeRAG env_fail ?w)"
  have pass: "initializeRAG env_fail ?w = (Some EmbedTransport, ?w')"
    by (simp add: failing_pass)
  have m: "AddLoader 1 (textWithMetadata 1 rec1) \<in> set (drop (length (trace ?w)) (trace ?w'))"
    by (simp add: failing_pass) (simp add: fresh_world_def)
  have f: "addLoader env_fail (textWithMetadata 1 rec1) = Inl EmbedTransport"
    by (simp add: env_fail_def textWithMetadata_def show_nat.simps digit_chars)
  show ?thesis
    using embedding_failure_aborts_pass [OF pass] pass m f by auto
qed

text \<open>
  Against claim C2 as stated: of three records the second cannot be embedded. The pass
  ends with the error; the third record, which could be embedded, is never handed to
  \<open>addLoader\<close>; and no ledger is written, not even for the first record.
\<close>

theorem embedding_failure_stops_pass:
  "fst (initializeRAG env_fail (fresh_world [rec0, rec1, rec2])) = Some EmbedTransport
   \<and> trace (snd (initializeRAG env_fail (fresh_world [rec0, rec1, rec2])))
       = [LogCacheNotFound, AddLoader 0 (textWithMetadata 0 rec0), AddLoader 1 (textWithMetadata 1 rec1)]
   \<and> addLoader env_fail (textWithMetadata 0 rec0) = Inr [chunk0]
   \<and> addLoader env_fail (textWithMetadata 2 rec2) = Inr [tagged_chunk (textWithMetadata 2 rec2) [1, 0]]
   \<and> indices_hash_file (snd (initializeRAG env_fail (fresh_world [rec0, rec1, rec2]))) = None
   \<and> cache_file (snd (initializeRAG env_fail (fresh_world [rec0, rec1, rec2]))) = CacheMissing"
  by (simp add: failing_pass)
     (simp add: fresh_world_def env_fail_def env0_def chunk0_def tagged_chunk_def textWithMetadata_def
        show_nat.simps digit_chars)

lemma cache_vectors_nonempty: "cache_vectors c = vs \<Longrightarrow> vs \<noteq> [] \<Longrightarrow> c_vectors c = Some vs"
  by (auto simp: cache_vectors_def split: option.splits)

lemma first_pass_post:
  assumes ni: "\<not> isInitialized w0"
      and pass: "initializeRAG env w0 = (None, w1)"
      and wr: "cache_writable w0" "indices_hash_writable w0" "hash_writable w0"
      and db: "ragApp w1 = Some db1" "vectors db1 \<noteq> []"
  shows "\<exists>raw qs c. questions_file w1 = Some (raw, Some qs) \<and> cache_file w1 = CacheGood c
           \<and> c_vectors c = Some (vectors db1) \<and> dimensions db1 = Some (embedderDimensions env)
           \<and> indices_hash_file w1 = Some (current_ledger env qs)
           \<and> hash_file w1 = Some (digest_hex (md5 env raw)) \<and> hash_writable w1"
proof -
  have "\<exists>raw qs. questions_file w0 = Some (raw, Some qs)"
  proof (rule ccontr)
    assume "\<not> ?thesis"
    then have "initializeRAG env w0 = (Some ReadError, w0)"
      using ni by (intro initializeRAG_unreadable) auto
    with pass show False by simp
  qed
  then obtain raw qs where qf: "questions_file w0 = Some (raw, Some qs)" by blast
  from initializeRAG_run [OF ni qf, of env]
  consider (same) c cm where "cache_file w0 = CacheGood c"
      "initializeRAG env w0
            = (None, saveHashes env
                 (w0\<lparr>questionsData := Some (map keywords_sorted qs), chunkMetadataMap := cm,
                    ragApp := Some \<lparr>vectors = cache_vectors c, dimensions = Some (embedderDimensions env)\<rparr>,
                    trace := trace w0 @ [LogCacheLoaded (length (cache_vectors c))],
                    isInitialized := True\<rparr>))"
    | (upd) ev r evs qd cm db' where "dimensions db' = Some (embedderDimensions env)"
      "initializeRAG env w0
              = (if r = None
                 then saveCacheAndHashes env
                        (w0\<lparr>questionsData := Some qd, chunkMetadataMap := cm,
                           ragApp := Some db', trace := trace w0 @ ev # evs\<rparr>)
                 else (r, w0\<lparr>questionsData := Some qd, chunkMetadataMap := cm,
                           ragApp := Some db', trace := trace w0 @ ev # evs\<rparr>))"
    by blast
  then show ?thesis
  proof cases
    case same
    let ?W = "w0\<lparr>questionsData := Some (map keywords_sorted qs), chunkMetadataMap := cm,
                    ragApp := Some \<lparr>vectors = cache_vectors c, dimensions = Some (embedderDimensions env)\<rparr>,
                    trace := trace w0 @ [LogCacheLoaded (length (cache_vectors c))],
                    isInitialized := True\<rparr>"
    have qW: "questions_file ?W = Some (raw, Some qs)" using qf by simp
    from same(2) pass have w1: "w1 = saveHashes env ?W" by simp
    have d1: "db1 = \<lparr>vectors = cache_vectors c, dimensions = Some (embedderDimensions env)\<rparr>"
      using db(1) by (simp add: w1 saveHashes_fields [OF qW])
    have cv: "c_vectors c = Some (vectors db1)"
      using db(2) d1 by (intro cache_vectors_nonempty) simp_all
    have "questions_file w1 = Some (raw, Some qs) \<and> cache_file w1 = CacheGood c
           \<and> indices_hash_file w1 = Some (current_ledger env qs)
           \<and> hash_file w1 = Some (digest_hex (md5 env raw)) \<and> hash_writable w1"
      using qf same(1) wr by (simp add: w1 saveHashes_fields [OF qW])
    with cv d1 show ?thesis by simp
  next
    case upd
    let ?W = "w0\<lparr>questionsData := Some qd, chunkMetadataMap := cm,
                           ragApp := Some db', trace := trace w0 @ ev # evs\<rparr>"
    have r: "r = None" using upd(2) pass by (cases r) simp_all
    have rW: "ragApp ?W = Some db'" and qW: "questions_file ?W = Some (raw, Some qs)"
      using qf by simp_all
    from saveCacheAndHashes_fields [OF rW qW, of env] obtain w' lg where
      s: "saveCacheAndHashes env ?W = (None, w')"
      and f: "cache_file w' = (if cache_writable ?W
                          then CacheGood \<lparr>c_vectors = Some (vectors db'), c_dimensions = dimensions db',
                                          savedAt = now ?W\<rparr>
                          else cache_file ?W)"
        "ragApp w' = Some db'" "questions_file w' = questions_file ?W"
        "indices_hash_file w'
           = (if indices_hash_writable ?W then Some (current_ledger env qs) else indices_hash_file ?W)"
        "hash_file w' = (if hash_writable ?W then Some (digest_hex (md5 env raw)) else hash_file ?W)"
        "hash_writable w' = hash_writable ?W"
      by blast
    from upd(2) r s pass have w1: "w1 = w'" by simp
    have d1: "db1 = db'" using db(1) f(2) w1 by simp
    show ?thesis using f wr qf upd(1) by (simp add: w1 d1)
  qed
qed

text \<open>
  Claim C6, as amended. Let a pass of \<open>initializeRAG\<close> succeed with the three artifacts
  writable and leave at least one chunk in the store. Then on the unchanged corpus the
  classifier reports nothing, and \<open>refreshRAG\<close> succeeds with the same store, cache
  artifact, ledger and digest; all it does is the console message of the load and the
  rewriting of ledger and digest with equal content. There is no embedding call.
\<close>

theorem second_pass_is_noop:
  assumes ni: "\<not> isInitialized w0"
      and pass: "initializeRAG env w0 = (None, w1)"
      and wr: "cache_writable w0" "indices_hash_writable w0" "hash_writable w0"
      and db: "ragApp w1 = Some db1" "vectors db1 \<noteq> []"
  shows "fst (findChangedQuestions env w1) = no_changes
       \<and> (\<exists>w2. refreshRAG env w1 = (None, w2)
             \<and> ragApp w2 = Some db1
             \<and> cache_file w2 = cache_file w1
             \<and> indices_hash_file w2 = indices_hash_file w1
             \<and> hash_file w2 = hash_file w1
             \<and> drop (length (trace w1)) (trace w2)
                 = [LogCacheLoaded (length (vectors db1)), LedgerWrite, DigestWrite])"
proof -
  from first_pass_post [OF assms] obtain raw qs c where
    qf: "questions_file w1 = Some (raw, Some qs)" and cf: "cache_file w1 = CacheGood c"
    and cv: "c_vectors c = Some (vectors db1)" and d: "dimensions db1 = Some (embedderDimensions env)"
    and lf: "indices_hash_file w1 = Some (current_ledger env qs)"
    and hf: "hash_file w1 = Some (digest_hex (md5 env raw))" and hw: "hash_writable w1"
    by blast
  have cls: "fst (findChangedQuestions env w1) = no_changes"
    by (simp add: findChangedQuestions_unchanged [OF qf lf])
  let ?w = "w1\<lparr>isInitialized := False\<rparr>"
  have a: "\<not> isInitialized ?w" "questions_file ?w = Some (raw, Some qs)" "cache_file ?w = CacheGood c"
    "indices_hash_file ?w = Some (current_ledger env qs)"
    using qf cf lf by simp_all
  from unchanged_pass [OF a(1,2,3) cv db(2) a(4)] obtain w2 where
    p: "initializeRAG env ?w = (None, w2)"
    and r: "ragApp w2 = Some \<lparr>vectors = vectors db1, dimensions = Some (embedderDimensions env)\<rparr>"
    and f: "cache_file w2 = cache_file ?w" "indices_hash_file w2 = indices_hash_file ?w"
      "hash_file w2 = (if hash_writable ?w then Some (digest_hex (md5 env raw)) else hash_file ?w)"
      "trace w2 = trace ?w @ [LogCacheLoaded (length (vectors db1)), LedgerWrite, DigestWrite]"
    by blast
  have "\<lparr>vectors = vectors db1, dimensions = Some (embedderDimensions env)\<rparr> = db1"
    using d by simp
  with r have r': "ragApp w2 = Some db1" by simp
  have "refreshRAG env w1 = (None, w2)
             \<and> ragApp w2 = Some db1
             \<and> cache_file w2 = cache_file w1
             \<and> indices_hash_file w2 = indices_hash_file w1
             \<and> hash_file w2 = hash_file w1
             \<and> drop (length (trace w1)) (trace w2)
                 = [LogCacheLoaded (length (vectors db1)), LedgerWrite, DigestWrite]"
    using p r' f hf hw by (simp add: refreshRAG_def)
  with cls show ?thesis by blast
qed

theorem second_pass_is_noop_witness:
  "\<not> isInitialized (fresh_world [rec0])
   \<and> fst (initializeRAG env0 (fresh_world [rec0])) = None
   \<and> cache_writable (fresh_world [rec0]) \<and> indices_hash_writable (fresh_world [rec0])
   \<and> hash_writable (fresh_world [rec0])
   \<and> ragApp (snd (initializeRAG env0 (fresh_world [rec0])))
        = Some \<lparr>vectors = [chunk0], dimensions = Some 2\<rparr>
   \<and> fst (findChangedQuestions env0 (snd (initializeRAG env0 (fresh_world [rec0])))) = no_changes
   \<and> (\<exists>w2. refreshRAG env0 (snd (initializeRAG env0 (fresh_world [rec0]))) = (None, w2)
          \<and> ragApp w2 = Some \<lparr>vectors = [chunk0], dimensions = Some 2\<rparr>
          \<and> cache_file w2 = cache_file (snd (initializeRAG env0 (fresh_world [rec0])))
          \<and> indices_hash_file w2 = indices_hash_file (snd (initializeRAG env0 (fresh_world [rec0])))
          \<and> hash_file w2 = hash_file (snd (initializeRAG env0 (fresh_world [rec0])))
          \<and> drop (length (trace (snd (initializeRAG env0 (fresh_world [rec0]))))) (trace w2)
               = [LogCacheLoaded 1, LedgerWrite, DigestWrite])"
proof -
  let ?w1 = "snd (initializeRAG env0 (fresh_world [rec0]))"
  let ?db = "\<lparr>vectors = [chunk0], dimensions = Some 2\<rparr>"
  have ni: "\<not> isInitialized (fresh_world [rec0])"
    and wr: "cache_writable (fresh_world [rec0])" "indices_hash_writable (fresh_world [rec0])"
      "hash_writable (fresh_world [rec0])"
    by (simp_all add: fresh_world_def)
  have ok: "fst (initializeRAG env0 (fresh_world [rec0])) = None" by (simp add: first_pass)
  then have pass: "initializeRAG env0 (fresh_world [rec0]) = (None, ?w1)"
    by (simp add: prod_eq_iff)
  have db: "ragApp ?w1 = Some ?db" by (simp add: first_pass)
  have ne: "vectors ?db \<noteq> []" by simp
  show ?thesis
    using second_pass_is_noop [OF ni pass wr db ne] ni ok wr db by simp
qed

text \<open>
  Against claim C6 as stated: the cache holds only a chunk of index 7 and the ledger
  lists index 0 (with the digest of the one record of the corpus) and index 7. The first
  pass deletes the chunk of index 7 and saves an empty store; the second pass finds no
  vectors in the cache, rebuilds, and calls the embedder for record 0.
\<close>

theorem second_pass_embeds_again:
  "fst (initializeRAG env0 stale_world) = None
   \<and> map_option vectors (ragApp (snd (initializeRAG env0 stale_world))) = Some []
   \<and> fst (refreshRAG env0 (snd (initializeRAG env0 stale_world))) = None
   \<and> drop (length (trace (snd (initializeRAG env0 stale_world))))
        (trace (snd (refreshRAG env0 (snd (initializeRAG env0 stale_world)))))
       = [LogCacheLoaded 0, AddLoader 0 (textWithMetadata 0 rec0), CacheWrite,
          LogCacheSaved 1, LedgerWrite, DigestWrite]
   \<and> map_option vectors (ragApp (snd (refreshRAG env0 (snd (initializeRAG env0 stale_world)))))
       = Some [chunk0]"
  by (simp add: stale_first_pass stale_second_pass)
     (simp add: stale_after_first_def stale_after_second_def)

lemma same_refl_upd: "same_but_cache_and_trace w (w\<lparr>cache_file := c, trace := t\<rparr>)"
  by (simp add: same_but_cache_and_trace_def)

lemma same_D: "same_but_cache_and_trace w w' \<Longrightarrow> \<exists>c t. w' = w\<lparr>cache_file := c, trace := t\<rparr>"
  unfolding same_but_cache_and_trace_def by blast

lemma processQuestion_sim:
  assumes "same_but_cache_and_trace w w'"
  shows "fst (processQuestion env i w') = fst (processQuestion env i w)
       \<and> same_but_cache_and_trace (snd (processQuestion env i w)) (snd (processQuestion env i w'))"
proof -
  from same_D [OF assms] obtain c t where w': "w' = w\<lparr>cache_file := c, trace := t\<rparr>" by blast
  show ?thesis
    unfolding w'
    by (simp add: processQuestion_def Let_def log_event_def same_but_cache_and_trace_def
        split: option.splits sum.splits)
qed

lemma processQuestions_sim:
  assumes "same_but_cache_and_trace w w'"
  shows "fst (processQuestions env is w') = fst (processQuestions env is w)
       \<and> same_but_cache_and_trace (snd (processQuestions env is w)) (snd (processQuestions env is w'))"
  using assms
proof (induction "is" arbitrary: w w')
  case Nil
  then show ?case by simp
next
  case (Cons i "is")
  note s = processQuestion_sim [OF Cons.prems, of env i]
  show ?case
  proof (cases "fst (processQuestion env i w)")
    case None
    with s have n': "fst (processQuestion env i w') = None" by simp
    have a: "processQuestions env (i # is) w = processQuestions env is (snd (processQuestion env i w))"
      using None by (cases "processQuestion env i w") simp
    have b: "processQuestions env (i # is) w' = processQuestions env is (snd (processQuestion env i w'))"
      using n' by (cases "processQuestion env i w'") simp
    from Cons.IH [of "snd (processQuestion env i w)" "snd (processQuestion env i w')"] s
    show ?thesis unfolding a b by blast
  next
    case (Some e)
    with s have n': "fst (processQuestion env i w') = Some e" by simp
    have a: "processQuestions env (i # is) w = (Some e, snd (processQuestion env i w))"
      using Some by (cases "processQuestion env i w") simp
    have b: "processQuestions env (i # is) w' = (Some e, snd (processQuestion env i w'))"
      using n' by (cases "processQuestion env i w'") simp
    show ?thesis unfolding a b using s by simp
  qed
qed

lemma saveCacheAndHashes_sim:
  assumes "same_but_cache_and_trace w w'"
  shows "fst (saveCacheAndHashes env w') = fst (saveCacheAndHashes env w)
       \<and> same_but_cache_and_trace (snd (saveCacheAndHashes env w)) (snd (saveCacheAndHashes env w'))"
proof -
  from same_D [OF assms] obtain c t where w': "w' = w\<lparr>cache_file := c, trace := t\<rparr>" by blast
  show ?thesis
    unfolding w'
    by (simp add: saveCacheAndHashes_def saveToFile_def saveHashes_def saveHash_def saveIndicesHash_def
        calculateQuestionsIndicesHash_def calculateQuestionsHash_def loadQuestions_def
        Let_def log_event_def same_but_cache_and_trace_def
        split: option.splits sum.splits prod.splits)
qed

lemma fullRebuild_sim:
  assumes "same_but_cache_and_trace w w'"
  shows "fst (fullRebuild env w') = fst (fullRebuild env w)
       \<and> same_but_cache_and_trace (snd (fullRebuild env w)) (snd (fullRebuild env w'))"
proof -
  from same_D [OF assms] obtain c t where w': "w' = w\<lparr>cache_file := c, trace := t\<rparr>" by blast
  let ?d = "init (embedderDimensions env)"
  let ?w1 = "w\<lparr>ragApp := map_option ?d (ragApp w)\<rparr>"
  let ?w1' = "w'\<lparr>ragApp := map_option ?d (ragApp w')\<rparr>"
  have s1: "same_but_cache_and_trace ?w1 ?w1'"
    unfolding w' by (simp add: same_but_cache_and_trace_def)
  show ?thesis
  proof (cases "questionsData w")
    case None
    then show ?thesis using s1 unfolding w' by (simp add: fullRebuild_def Let_def)
  next
    case (Some qs)
    then have q': "questionsData w' = Some qs" unfolding w' by simp
    note p = processQuestions_sim [OF s1, of env "[0..<length qs]"]
    show ?thesis
    proof (cases "fst (processQuestions env [0..<length qs] ?w1)")
      case None
      with p have n': "fst (processQuestions env [0..<length qs] ?w1') = None" by simp
      have a: "fullRebuild env w = saveCacheAndHashes env (snd (processQuestions env [0..<length qs] ?w1))"
        using None Some by (cases "processQuestions env [0..<length qs] ?w1") (simp add: fullRebuild_def Let_def)
      have b: "fullRebuild env w' = saveCacheAndHashes env (snd (processQuestions env [0..<length qs] ?w1'))"
        using n' q' by (cases "processQuestions env [0..<length qs] ?w1'") (simp add: fullRebuild_def Let_def)
      show ?thesis unfolding a b using p saveCacheAndHashes_sim by blast
    next
      case (Some e)
      with p have n': "fst (processQuestions env [0..<length qs] ?w1') = Some e" by simp
      have a: "fullRebuild env w = (Some e, snd (processQuestions env [0..<length qs] ?w1))"
        using Some \<open>questionsData w = Some qs\<close>
        by (cases "processQuestions env [0..<length qs] ?w1") (simp add: fullRebuild_def Let_def)
      have b: "fullRebuild env w' = (Some e, snd (processQuestions env [0..<length qs] ?w1'))"
        using n' q' by (cases "processQuestions env [0..<length qs] ?w1'") (simp add: fullRebuild_def Let_def)
      show ?thesis unfolding a b using p by simp
    qed
  qed
qed

lemma initializeRAG_without_cache:
  assumes "cache_file w = CacheMissing \<or> cache_file w = CacheCorrupt"
  shows "initializeRAG env w =
     (if isInitialized w then (None, w)
      else case questions_file w of
             Some (raw, Some qs) \<Rightarrow>
               fullRebuild env
                 ((log_event (if cache_file w = CacheMissing then LogCacheNotFound else LogCacheError)
                     (w\<lparr>questionsData := Some qs\<rparr>))
                    \<lparr>ragApp := Some (init (embedderDimensions env) new_db)\<rparr>)
           | _ \<Rightarrow> (Some ReadError, w))"
  using assms
  by (auto simp: initializeRAG_def loadQuestions_def loadFromFile_def Let_def
      split: option.splits prod.splits)

text \<open>
  Claim C8, as amended. For a missing and for an unreadable cache file alike,
  \<open>loadFromFile\<close> returns false and leaves the store as it was; the two cases differ
  in the console message only. \<open>initializeRAG\<close> ends with the same result in both, and
  in worlds that differ at most in the trace and in the cache file left on disk: nothing
  tells its caller which of the two it was. In both it goes on with the full rebuild.
\<close>

theorem loadFromFile_missing_or_corrupt:
  "loadFromFile db (w\<lparr>cache_file := CacheMissing\<rparr>)
     = (False, db, log_event LogCacheNotFound (w\<lparr>cache_file := CacheMissing\<rparr>))
   \<and> loadFromFile db (w\<lparr>cache_file := CacheCorrupt\<rparr>)
     = (False, db, log_event LogCacheError (w\<lparr>cache_file := CacheCorrupt\<rparr>))
   \<and> fst (initializeRAG env (w\<lparr>cache_file := CacheCorrupt\<rparr>))
     = fst (initializeRAG env (w\<lparr>cache_file := CacheMissing\<rparr>))
   \<and> same_but_cache_and_trace (snd (initializeRAG env (w\<lparr>cache_file := CacheMissing\<rparr>)))
        (snd (initializeRAG env (w\<lparr>cache_file := CacheCorrupt\<rparr>)))
   \<and> (\<not> isInitialized w \<and> questions_file w = Some (raw, Some qs)
        \<and> (cache_file w = CacheMissing \<or> cache_file w = CacheCorrupt) \<longrightarrow>
      initializeRAG env w
        = fullRebuild env
            ((log_event (if cache_file w = CacheMissing then LogCacheNotFound else LogCacheError)
                (w\<lparr>questionsData := Some qs\<rparr>))
               \<lparr>ragApp := Some (init (embedderDimensions env) new_db)\<rparr>))"
proof -
  let ?m = "w\<lparr>cache_file := CacheMissing\<rparr>" and ?c = "w\<lparr>cache_file := CacheCorrupt\<rparr>"
  have l: "loadFromFile db ?m = (False, db, log_event LogCacheNotFound ?m)"
    "loadFromFile db ?c = (False, db, log_event LogCacheError ?c)"
    by (simp_all add: loadFromFile_def)
  have im: "initializeRAG env ?m =
     (if isInitialized w then (None, ?m)
      else case questions_file w of
             Some (raw, Some qs) \<Rightarrow>
               fullRebuild env
                 ((log_event LogCacheNotFound (?m\<lparr>questionsData := Some qs\<rparr>))
                    \<lparr>ragApp := Some (init (embedderDimensions env) new_db)\<rparr>)
           | _ \<Rightarrow> (Some ReadError, ?m))"
    using initializeRAG_without_cache [of ?m env] by simp
  have ic: "initializeRAG env ?c =
     (if isInitialized w then (None, ?c)
      else case questions_file w of
             Some (raw, Some qs) \<Rightarrow>
               fullRebuild env
                 ((log_event LogCacheError (?c\<lparr>questionsData := Some qs\<rparr>))
                    \<lparr>ragApp := Some (init (embedderDimensions env) new_db)\<rparr>)
           | _ \<Rightarrow> (Some ReadError, ?c))"
    using initializeRAG_without_cache [of ?c env] by simp
  have s0: "same_but_cache_and_trace ?m ?c"
    by (simp add: same_but_cache_and_trace_def)
  have sim: "fst (initializeRAG env ?c) = fst (initializeRAG env ?m)
       \<and> same_but_cache_and_trace (snd (initializeRAG env ?m)) (snd (initializeRAG env ?c))"
  proof (cases "isInitialized w")
    case True
    then show ?thesis using s0 by (simp add: im ic)
  next
    case ni: False
    show ?thesis
    proof (cases "\<exists>raw qs. questions_file w = Some (raw, Some qs)")
      case False
      then have "initializeRAG env ?m = (Some ReadError, ?m)" "initializeRAG env ?c = (Some ReadError, ?c)"
        using ni by (auto simp: im ic split: option.splits)
      then show ?thesis using s0 by simp
    next
      case True
      then obtain raw' qs' where qf: "questions_file w = Some (raw', Some qs')" by blast
      let ?sm = "(log_event LogCacheNotFound (?m\<lparr>questionsData := Some qs'\<rparr>))
                    \<lparr>ragApp := Some (init (embedderDimensions env) new_db)\<rparr>"
      let ?sc = "(log_event LogCacheError (?c\<lparr>questionsData := Some qs'\<rparr>))
                    \<lparr>ragApp := Some (init (embedderDimensions env) new_db)\<rparr>"
      have "same_but_cache_and_trace ?sm ?sc"
        by (simp add: same_but_cache_and_trace_def log_event_def)
      from fullRebuild_sim [OF this, of env] show ?thesis
        using ni qf by (simp add: im ic)
    qed
  qed
  have r: "\<not> isInitialized w \<and> questions_file w = Some (raw, Some qs)
        \<and> (cache_file w = CacheMissing \<or> cache_file w = CacheCorrupt) \<longrightarrow>
      initializeRAG env w
        = fullRebuild env
            ((log_event (if cache_file w = CacheMissing then LogCacheNotFound else LogCacheError)
                (w\<lparr>questionsData := Some qs\<rparr>))
               \<lparr>ragApp := Some (init (embedderDimensions env) new_db)\<rparr>)"
    using initializeRAG_without_cache [of w env] by auto
  from l sim r show ?thesis by blast
qed

theorem loadFromFile_missing_or_corrupt_witness:
  "\<not> isInitialized ((fresh_world [rec0])\<lparr>cache_file := CacheCorrupt\<rparr>)
   \<and> questions_file ((fresh_world [rec0])\<lparr>cache_file := CacheCorrupt\<rparr>)
       = Some (''raw corpus text'', Some [rec0])
   \<and> cache_file ((fresh_world [rec0])\<lparr>cache_file := CacheCorrupt\<rparr>) = CacheCorrupt
   \<and> initializeRAG env0 ((fresh_world [rec0])\<lparr>cache_file := CacheCorrupt\<rparr>)
       = fullRebuild env0
           ((log_event LogCacheError
               ((fresh_world [rec0])\<lparr>cache_file := CacheCorrupt, questionsData := Some [rec0]\<rparr>))
              \<lparr>ragApp := Some (init (embedderDimensions env0) new_db)\<rparr>)"
  using loadFromFile_missing_or_corrupt
    [where w = "(fresh_world [rec0])\<lparr>cache_file := CacheCorrupt\<rparr>"
       and raw = "''raw corpus text''" and qs = "[rec0]" and env = env0]
  by (simp add: fresh_world_def)

text \<open>
  Against claim C8 as stated: what \<open>loadFromFile\<close> returns and the store it leaves are
  the same for an unreadable and for a missing cache file, and \<open>initializeRAG\<close> reports
  no error in either case.
\<close>

theorem corrupt_cache_looks_like_missing_cache:
  "fst (loadFromFile new_db ((fresh_world [rec0])\<lparr>cache_file := CacheCorrupt\<rparr>))
     = fst (loadFromFile new_db ((fresh_world [rec0])\<lparr>cache_file := CacheMissing\<rparr>))
   \<and> fst (snd (loadFromFile new_db ((fresh_world [rec0])\<lparr>cache_file := CacheCorrupt\<rparr>)))
     = fst (snd (loadFromFile new_db ((fresh_world [rec0])\<lparr>cache_file := CacheMissing\<rparr>)))
   \<and> fst (initializeRAG env0 ((fresh_world [rec0])\<lparr>cache_file := CacheCorrupt\<rparr>)) = None
   \<and> fst (initializeRAG env0 ((fresh_world [rec0])\<lparr>cache_file := CacheMissing\<rparr>)) = None"
  by (simp add: pass_defs env0_def rec0_def)

text \<open>
  Claim C9, as amended. Neither \<open>loadFromFile\<close> nor \<open>init\<close> looks at the length of a
  vector: the store holds the vectors of the cache artifact as they are, and \<open>init\<close>
  changes the dimensionality only. A vector whose length differs from the query's is
  scored 0. With an unchanged corpus the pass keeps the whole cache, whatever the lengths
  of its vectors, and embeds nothing.
\<close>

theorem mismatched_vectors_are_kept:
  "vectors (fst (snd (loadFromFile db (w\<lparr>cache_file := CacheGood c\<rparr>)))) = cache_vectors c
   \<and> vectors (init d db) = vectors db
   \<and> (length q \<noteq> length (vector v) \<longrightarrow> score (score_chunk q v) = 0)
   \<and> (\<not> isInitialized w \<and> questions_file w = Some (raw, Some qs) \<and> cache_file w = CacheGood c
        \<and> c_vectors c = Some vs \<and> vs \<noteq> [] \<and> indices_hash_file w = Some (current_ledger env qs) \<longrightarrow>
      (\<exists>w'. initializeRAG env w = (None, w')
          \<and> ragApp w' = Some \<lparr>vectors = vs, dimensions = Some (embedderDimensions env)\<rparr>
          \<and> cache_file w' = cache_file w
          \<and> trace w' = trace w @ [LogCacheLoaded (length vs), LedgerWrite, DigestWrite]))"
proof -
  have a: "vectors (fst (snd (loadFromFile db (w\<lparr>cache_file := CacheGood c\<rparr>)))) = cache_vectors c"
    by (simp add: loadFromFile_def cache_vectors_def Let_def)
  have b: "length q \<noteq> length (vector v) \<longrightarrow> score (score_chunk q v) = 0"
    by (simp add: score_chunk_def cosineSimilarity_mismatch)
  have c: "\<exists>w'. initializeRAG env w = (None, w')
          \<and> ragApp w' = Some \<lparr>vectors = vs, dimensions = Some (embedderDimensions env)\<rparr>
          \<and> cache_file w' = cache_file w
          \<and> trace w' = trace w @ [LogCacheLoaded (length vs), LedgerWrite, DigestWrite]"
    if "\<not> isInitialized w" "questions_file w = Some (raw, Some qs)" "cache_file w = CacheGood c"
        "c_vectors c = Some vs" "vs \<noteq> []" "indices_hash_file w = Some (current_ledger env qs)"
    using unchanged_pass [OF that] by blast
  from a b c show ?thesis by (simp add: vectors_init)
qed

theorem mismatched_vectors_are_kept_witness:
  "\<not> isInitialized mismatch_world
   \<and> questions_file mismatch_world = Some (''raw corpus text'', Some [rec0])
   \<and> cache_file mismatch_world
       = CacheGood \<lparr>c_vectors = Some [tagged_chunk ''[INDEX:0] Q0'' [1, 2, 3]],
                    c_dimensions = Some 3, savedAt = 0\<rparr>
   \<and> indices_hash_file mismatch_world = Some (current_ledger env0 [rec0])
   \<and> length [1, 0 :: real] \<noteq> length (vector (tagged_chunk ''[INDEX:0] Q0'' [1, 2, 3]))
   \<and> score (score_chunk [1, 0] (tagged_chunk ''[INDEX:0] Q0'' [1, 2, 3])) = 0
   \<and> (\<exists>w'. initializeRAG env0 mismatch_world = (None, w')
          \<and> ragApp w' = Some \<lparr>vectors = [tagged_chunk ''[INDEX:0] Q0'' [1, 2, 3]],
                               dimensions = Some (embedderDimensions env0)\<rparr>
          \<and> cache_file w' = cache_file mismatch_world
          \<and> trace w' = trace mismatch_world @ [LogCacheLoaded 1, LedgerWrite, DigestWrite])"
  using mismatched_vectors_are_kept
    [where q = "[1, 0]" and v = "tagged_chunk ''[INDEX:0] Q0'' [1, 2, 3]" and w = mismatch_world
       and raw = "''raw corpus text''" and qs = "[rec0]" and env = env0
       and c = "\<lparr>c_vectors = Some [tagged_chunk ''[INDEX:0] Q0'' [1, 2, 3]], c_dimensions = Some 3,
                 savedAt = 0\<rparr>"
       and vs = "[tagged_chunk ''[INDEX:0] Q0'' [1, 2, 3]]"]
  by (simp add: mismatch_world_def fresh_world_def tagged_chunk_def)

text \<open>
  Against claim C9 as stated: the embedder has dimensionality 2 and the cache holds a
  vector of length 3. The pass keeps it, rebuilds nothing, and a search scores it 0.
\<close>

theorem mismatched_cache_is_not_dropped:
  "embedderDimensions env0 = 2
   \<and> fst (initializeRAG env0 mismatch_world) = None
   \<and> ragApp (snd (initializeRAG env0 mismatch_world))
       = Some \<lparr>vectors = [tagged_chunk ''[INDEX:0] Q0'' [1, 2, 3]], dimensions = Some 2\<rparr>
   \<and> trace (snd (initializeRAG env0 mismatch_world)) = [LogCacheLoaded 1, LedgerWrite, DigestWrite]
   \<and> map score (similaritySearch \<lparr>vectors = [tagged_chunk ''[INDEX:0] Q0'' [1, 2, 3]],
                                  dimensions = Some 2\<rparr> [1, 0] 10) = [0]"
  by (simp add: pass_defs mismatch_world_def env0_def rec0_def similaritySearch_def sort_by_def
      score_chunk_def slice0_def cosineSimilarity_def)

end
